theory Spec2Isabelle
  imports Complex_Main
begin

section \<open>Procedural log generation: a shallow embedding of logs.py\<close>

text \<open>
  The geometry generator of \<^verbatim>\<open>src/logs.py\<close> (\<^verbatim>\<open>generate_proc_log\<close>, lines 199-319, and the
  end-cap code of the main loop, lines 385-404) is translated function by function.
  Conventions of the embedding:
  \<^item> Python floats are the real numbers: every float value is finite, and rounding and
    overflow are not modelled, so a comparison that falls exactly on an edge may be
    decided otherwise by the float code. The one place where rounding is modelled is the
    quadratic taper of the last section.
  \<^item> Python ints are \<^typ>\<open>int\<close>, and their conversion to float is exact in the model; the
    \<^verbatim>\<open>OverflowError\<close> of converting an int beyond the float range is not modelled
    (see \<open>float_sized\<close>). Loop indices produced by \<^verbatim>\<open>range\<close> are never negative and are
    \<^typ>\<open>nat\<close>.
  \<^item> Every exception the generator can raise is a value \<open>Inl e\<close> of a sum type.
  \<^item> The parameter dict is a record holding the keys \<^verbatim>\<open>generate_proc_log\<close> unpacks
    (lines 216-239), with the types the parameter editor gives them
    (\<^verbatim>\<open>src/params.py\<close>, table \<^verbatim>\<open>PARAMS\<close>).
  \<^item> \<^verbatim>\<open>mathutils\<close>, \<^verbatim>\<open>bmesh\<close> and \<^verbatim>\<open>bpy\<close> are Blender libraries, not code of this
    repository. The few operations used are modelled after their documented behaviour;
    the coherent-noise function \<^verbatim>\<open>noise.noise\<close> is a parameter of the model.
\<close>

subsection \<open>Errors and sequencing\<close>

datatype py_error = ZeroDivisionError | ValueError | IndexError | TypeError

definition bind_err :: "py_error + 'a \<Rightarrow> ('a \<Rightarrow> py_error + 'b) \<Rightarrow> py_error + 'b" where
  "bind_err m f = (case m of Inl e \<Rightarrow> Inl e | Inr x \<Rightarrow> f x)"

text \<open>\<^verbatim>\<open>for x in xs: body\<close> over a state; the first exception ends the loop.\<close>

fun for_each :: "'a list \<Rightarrow> ('a \<Rightarrow> 's \<Rightarrow> py_error + 's) \<Rightarrow> 's \<Rightarrow> py_error + 's" where
  "for_each [] body s = Inr s"
| "for_each (x # xs) body s =
     (case body x s of Inl e \<Rightarrow> Inl e | Inr s' \<Rightarrow> for_each xs body s')"

text \<open>\<^verbatim>\<open>range(k)\<close>: the indices \<open>0, ..., k-1\<close>, none when \<open>k \<le> 0\<close>.\<close>

definition py_range :: "int \<Rightarrow> nat list" where
  "py_range k = [0..<nat k]"

text \<open>\<^verbatim>\<open>xs[i]\<close> for an index \<open>i \<ge> 0\<close>.\<close>

definition py_get :: "'a list \<Rightarrow> nat \<Rightarrow> py_error + 'a" where
  "py_get xs i = (if i < length xs then Inr (xs ! i) else Inl IndexError)"

text \<open>The slices \<^verbatim>\<open>xs[:n]\<close> and \<^verbatim>\<open>xs[k:]\<close>; a negative bound counts from the end.\<close>

definition py_slice_to :: "int \<Rightarrow> 'a list \<Rightarrow> 'a list" where
  "py_slice_to n xs = (if 0 \<le> n then take (nat n) xs else take (length xs - nat (- n)) xs)"

definition py_slice_from :: "int \<Rightarrow> 'a list \<Rightarrow> 'a list" where
  "py_slice_from k xs = (if 0 \<le> k then drop (nat k) xs else drop (length xs - nat (- k)) xs)"

subsection \<open>Float arithmetic that can raise\<close>

definition py_truediv :: "real \<Rightarrow> real \<Rightarrow> py_error + real" where
  "py_truediv a b = (if b = 0 then Inl ZeroDivisionError else Inr (a / b))"

text \<open>
  \<^verbatim>\<open>x ** y\<close> on floats, for a base \<open>x \<ge> 0\<close> (the generator only calls it with
  \<open>t = i / rings \<ge> 0\<close>): \<^verbatim>\<open>0.0 ** y\<close> raises for negative \<open>y\<close>, is 1 for \<open>y = 0\<close>.
\<close>

definition py_pow :: "real \<Rightarrow> real \<Rightarrow> py_error + real" where
  "py_pow x y =
     (if x = 0 then (if y < 0 then Inl ZeroDivisionError else if y = 0 then Inr 1 else Inr 0)
      else Inr (x powr y))"

text \<open>\<^verbatim>\<open>x % y\<close> on floats: the remainder has the sign of the divisor.\<close>

definition py_fmod :: "real \<Rightarrow> real \<Rightarrow> py_error + real" where
  "py_fmod x y = (if y = 0 then Inl ZeroDivisionError else Inr (x - y * of_int \<lfloor>x / y\<rfloor>))"

text \<open>\<^verbatim>\<open>math.radians\<close>.\<close>

definition radians :: "real \<Rightarrow> real" where
  "radians d = d * pi / 180"

subsection \<open>Vectors and rotation matrices (mathutils)\<close>

type_synonym Vector = "real \<times> real \<times> real"

text \<open>
  A rotation matrix is kept as its three rows. \<^verbatim>\<open>Matrix.Rotation(angle, 4, axis)\<close> is a
  4x4 matrix whose translation part is zero, and \<^verbatim>\<open>rot @ v\<close> on a 3D vector applies its
  upper-left 3x3 block.
\<close>

type_synonym Matrix = "Vector \<times> Vector \<times> Vector"

definition vadd :: "Vector \<Rightarrow> Vector \<Rightarrow> Vector" where
  "vadd a b = (case a of (ax, ay, az) \<Rightarrow> case b of (bx, by, bz) \<Rightarrow> (ax + bx, ay + by, az + bz))"

definition vdot :: "Vector \<Rightarrow> Vector \<Rightarrow> real" where
  "vdot a b = (case a of (ax, ay, az) \<Rightarrow> case b of (bx, by, bz) \<Rightarrow> ax * bx + ay * by + az * bz)"

definition matmul :: "Matrix \<Rightarrow> Vector \<Rightarrow> Vector" where
  "matmul m v = (case m of (r1, r2, r3) \<Rightarrow> (vdot r1 v, vdot r2 v, vdot r3 v))"

text \<open>\<^verbatim>\<open>Matrix.Rotation\<close>: the axis must be one of the strings X, Y, Z.\<close>

definition Matrix_Rotation :: "real \<Rightarrow> string \<Rightarrow> py_error + Matrix" where
  "Matrix_Rotation angle axis =
     (if axis = ''X'' then Inr ((1, 0, 0), (0, cos angle, - sin angle), (0, sin angle, cos angle))
      else if axis = ''Y'' then Inr ((cos angle, 0, sin angle), (0, 1, 0), (- sin angle, 0, cos angle))
      else if axis = ''Z'' then Inr ((cos angle, - sin angle, 0), (sin angle, cos angle, 0), (0, 0, 1))
      else Inl ValueError)"

text \<open>\<^verbatim>\<open>str.upper\<close> on ASCII letters.\<close>

definition upper_char :: "char \<Rightarrow> char" where
  "upper_char c =
     (case map_of (zip ''abcdefghijklmnopqrstuvwxyz'' ''ABCDEFGHIJKLMNOPQRSTUVWXYZ'') c of
        Some u \<Rightarrow> u
      | None \<Rightarrow> c)"

definition upper :: "string \<Rightarrow> string" where
  "upper s = map upper_char s"

subsection \<open>The parameter record\<close>

record params =
  length_p :: real
  radius_start :: real
  radius_center :: real
  radius_end :: real
  rings :: int
  verts_per_ring :: int
  taper_shape :: string
  taper_rate :: real
  curve_count :: int
  curve_strength :: real
  twist_angle :: real
  twist_direction :: string
  ellipse_ratio :: real
  oval_region_fraction :: real
  eccentricity_offset :: real
  eccentricity_angle :: real
  groove_count :: int
  groove_width :: real
  groove_depth :: real
  noise_scale :: real
  bark_roughness_depth :: real
  bark_roughness_level :: real
  flange_count :: int
  flange_width :: real

text \<open>The defaults of the parameter editor (\<^verbatim>\<open>params.py\<close>, lines 13-45).\<close>

definition default_params :: params where
  "default_params =
     \<lparr> length_p = 5, radius_start = 1/2, radius_center = 45/100, radius_end = 4/10,
       rings = 30, verts_per_ring = 80, taper_shape = ''quadratic'', taper_rate = 8,
       curve_count = 0, curve_strength = 3/10, twist_angle = 0, twist_direction = ''Z'',
       ellipse_ratio = 11/10, oval_region_fraction = 8/10, eccentricity_offset = 1/2,
       eccentricity_angle = 0, groove_count = 2, groove_width = pi / 4, groove_depth = 2/100,
       noise_scale = 3, bark_roughness_depth = 1/10, bark_roughness_level = 1,
       flange_count = 3, flange_width = 5/100 \<rparr>"

text \<open>
  The ranges and choices the editor documents (\<^verbatim>\<open>params.py\<close>, \<^verbatim>\<open>PARAMS\<close> and
  \<^verbatim>\<open>PARAM_METADATA\<close>, lines 13-80). The editor shows them in labels and in the help
  window; \<^verbatim>\<open>save_json\<close> (lines 172-193) only converts each entry to its type.
\<close>

definition in_documented_ranges :: "params \<Rightarrow> bool" where
  "in_documented_ranges p =
     (1/10 \<le> length_p p \<and> length_p p \<le> 20 \<and>
      1/100 \<le> radius_start p \<and> radius_start p \<le> 5 \<and>
      1/100 \<le> radius_center p \<and> radius_center p \<le> 5 \<and>
      1/100 \<le> radius_end p \<and> radius_end p \<le> 5 \<and>
      3 \<le> rings p \<and> rings p \<le> 200 \<and>
      3 \<le> verts_per_ring p \<and> verts_per_ring p \<le> 512 \<and>
      taper_shape p \<in> set [''linear'', ''exponential'', ''quadratic''] \<and>
      1/10 \<le> taper_rate p \<and> taper_rate p \<le> 20 \<and>
      0 \<le> curve_count p \<and> curve_count p \<le> 10 \<and>
      0 \<le> curve_strength p \<and> curve_strength p \<le> 5 \<and>
      0 \<le> twist_angle p \<and> twist_angle p \<le> 360 \<and>
      twist_direction p \<in> set [''X'', ''Y'', ''Z''] \<and>
      1/10 \<le> ellipse_ratio p \<and> ellipse_ratio p \<le> 5 \<and>
      0 \<le> oval_region_fraction p \<and> oval_region_fraction p \<le> 1 \<and>
      0 \<le> eccentricity_offset p \<and> eccentricity_offset p \<le> 2 \<and>
      0 \<le> eccentricity_angle p \<and> eccentricity_angle p \<le> 360 \<and>
      0 \<le> groove_count p \<and> groove_count p \<le> 20 \<and>
      0 \<le> groove_width p \<and> groove_width p \<le> pi \<and>
      0 \<le> groove_depth p \<and> groove_depth p \<le> 1 \<and>
      0 \<le> noise_scale p \<and> noise_scale p \<le> 10 \<and>
      0 \<le> bark_roughness_depth p \<and> bark_roughness_depth p \<le> 1 \<and>
      0 \<le> bark_roughness_level p \<and> bark_roughness_level p \<le> 5 \<and>
      0 \<le> flange_count p \<and> flange_count p \<le> 10 \<and>
      0 \<le> flange_width p \<and> flange_width p \<le> 1)"

subsection \<open>One ring: radius, centre and twist (logs.py, lines 243-279)\<close>

text \<open>Lines 246-253: the tapered radius at position \<open>t\<close>.\<close>

definition taper_radius :: "params \<Rightarrow> real \<Rightarrow> py_error + real" where
  "taper_radius p t =
     (if taper_shape p = ''linear'' then
        Inr (radius_start p + (radius_end p - radius_start p) * t)
      else if taper_shape p = ''exponential'' then
        bind_err (py_pow t (taper_rate p))
          (\<lambda>tp. Inr (radius_start p + (radius_end p - radius_start p) * tp))
      else
        Inr ((1 - t)\<^sup>2 * radius_start p + 2 * (1 - t) * t * radius_center p + t\<^sup>2 * radius_end p))"

text \<open>Lines 256-259: ellipse or circle.\<close>

definition ellipse_radii :: "params \<Rightarrow> real \<Rightarrow> real \<Rightarrow> py_error + real \<times> real" where
  "ellipse_radii p t radius =
     (if t < oval_region_fraction p then
        bind_err (py_truediv radius (ellipse_ratio p))
          (\<lambda>q. Inr (radius * ellipse_ratio p, q))
      else Inr (radius, radius))"

text \<open>
  Lines 262-264: the flange bump. \<^verbatim>\<open>flange_count and ...\<close> tests the count for being
  nonzero before the integer division; \<^verbatim>\<open>//\<close> and \<^verbatim>\<open>%\<close> round towards minus infinity, as
  \<open>div\<close> and \<open>mod\<close> on \<^typ>\<open>int\<close> do.
\<close>

definition flange_bump :: "params \<Rightarrow> nat \<Rightarrow> real \<times> real \<Rightarrow> real \<times> real" where
  "flange_bump p i r =
     (if flange_count p \<noteq> 0 \<and> int i mod max 1 (rings p div flange_count p) = 0
      then (fst r + flange_width p, snd r + flange_width p)
      else r)"

text \<open>Lines 267-270: the centerline point.\<close>

definition centerline :: "params \<Rightarrow> real \<Rightarrow> Vector" where
  "centerline p t =
     (curve_strength p * sin (2 * pi * real_of_int (curve_count p) * t),
      curve_strength p * cos (2 * pi * real_of_int (curve_count p) * t),
      length_p p * t)"

text \<open>Lines 273-275: the eccentric offset.\<close>

definition eccentric_offset :: "params \<Rightarrow> Vector" where
  "eccentric_offset p =
     (let ea = radians (eccentricity_angle p)
      in (eccentricity_offset p * cos ea, eccentricity_offset p * sin ea, 0))"

text \<open>What the body of the outer loop has computed when the inner loop starts.\<close>

record ring_frame =
  rf_t :: real
  rf_rx :: real
  rf_ry :: real
  rf_center :: Vector
  rf_rot :: Matrix

definition ring_setup :: "params \<Rightarrow> nat \<Rightarrow> py_error + ring_frame" where
  "ring_setup p i =
     bind_err (py_truediv (real i) (real_of_int (rings p))) (\<lambda>t.
     bind_err (taper_radius p t) (\<lambda>radius.
     bind_err (ellipse_radii p t radius) (\<lambda>r.
       let rr = flange_bump p i r;
           center = vadd (centerline p t) (eccentric_offset p);
           angle = radians (twist_angle p) * t
       in bind_err (Matrix_Rotation angle (upper (twist_direction p))) (\<lambda>rot.
            Inr \<lparr> rf_t = t, rf_rx = fst rr, rf_ry = snd rr, rf_center = center, rf_rot = rot \<rparr>))))"

subsection \<open>One vertex of a ring (logs.py, lines 283-297)\<close>

text \<open>Lines 287-289: the groove term at angle \<open>theta\<close>.\<close>

definition groove_term :: "params \<Rightarrow> real \<Rightarrow> py_error + real" where
  "groove_term p theta =
     bind_err (py_truediv (2 * pi) (real_of_int (groove_count p))) (\<lambda>ang_per.
     bind_err (py_fmod (theta - ang_per / 2) ang_per) (\<lambda>m.
       let off = m - ang_per / 2
       in Inr (if \<bar>off\<bar> < groove_width p / 2 then - groove_depth p else 0)))"

text \<open>Lines 292-293: the bark roughness term.\<close>

definition rough_term :: "(Vector \<Rightarrow> real) \<Rightarrow> params \<Rightarrow> real \<Rightarrow> real \<Rightarrow> real" where
  "rough_term noise p t theta =
     noise (t * noise_scale p, theta * noise_scale p, 0)
       * bark_roughness_depth p * bark_roughness_level p"

text \<open>Lines 284-295: the two radii \<^verbatim>\<open>r_x, r_y\<close> of angular sample \<open>j\<close>, with its angle.\<close>

definition sample_radii ::
  "(Vector \<Rightarrow> real) \<Rightarrow> params \<Rightarrow> ring_frame \<Rightarrow> nat \<Rightarrow> py_error + real \<times> real \<times> real" where
  "sample_radii noise p fr j =
     bind_err (py_truediv (2 * pi * real j) (real_of_int (verts_per_ring p))) (\<lambda>theta.
     bind_err (groove_term p theta) (\<lambda>groove.
       let rough = rough_term noise p (rf_t fr) theta
       in Inr (theta, rf_rx fr + rough + groove, rf_ry fr + rough + groove)))"

text \<open>Line 296: the point in the ring's local plane.\<close>

definition local_point ::
  "(Vector \<Rightarrow> real) \<Rightarrow> params \<Rightarrow> ring_frame \<Rightarrow> nat \<Rightarrow> py_error + Vector" where
  "local_point noise p fr j =
     bind_err (sample_radii noise p fr j) (\<lambda>(theta, r_x, r_y).
       Inr (r_x * cos theta, r_y * sin theta, 0))"

text \<open>Line 297: the coordinates handed to \<^verbatim>\<open>bm.verts.new\<close>.\<close>

definition ring_vertex ::
  "(Vector \<Rightarrow> real) \<Rightarrow> params \<Rightarrow> ring_frame \<Rightarrow> nat \<Rightarrow> py_error + Vector" where
  "ring_vertex noise p fr j =
     bind_err (local_point noise p fr j) (\<lambda>loc_v.
       Inr (vadd (matmul (rf_rot fr) loc_v) (rf_center fr)))"

subsection \<open>The bmesh under construction\<close>

text \<open>
  A \<^verbatim>\<open>BMVert\<close> is known by its index in creation order, which is also its index in the
  mesh written by \<^verbatim>\<open>bm.to_mesh\<close>; a face is the list of its vertices in winding order.
\<close>

record bmesh =
  bm_verts :: "Vector list"
  bm_faces :: "nat list list"

definition bmesh_new :: bmesh where
  "bmesh_new = \<lparr> bm_verts = [], bm_faces = [] \<rparr>"

text \<open>\<^verbatim>\<open>bm.verts.new(co)\<close>: the new vertex and the grown bmesh.\<close>

definition bm_verts_new :: "bmesh \<Rightarrow> Vector \<Rightarrow> nat \<times> bmesh" where
  "bm_verts_new bm co = (length (bm_verts bm), bm\<lparr> bm_verts := bm_verts bm @ [co] \<rparr>)"

text \<open>
  \<^verbatim>\<open>bm.faces.new(verts)\<close> raises \<^verbatim>\<open>TypeError\<close> for fewer than three vertices, and
  \<^verbatim>\<open>ValueError\<close> for a vertex used twice and when a face over the same vertices exists
  already.
\<close>

definition bm_faces_new :: "bmesh \<Rightarrow> nat list \<Rightarrow> py_error + bmesh" where
  "bm_faces_new bm vs =
     (if length vs < 3 then Inl TypeError
      else if \<not> distinct vs \<or> list_ex (\<lambda>f. set f = set vs) (bm_faces bm) then Inl ValueError
      else Inr (bm\<lparr> bm_faces := bm_faces bm @ [vs] \<rparr>))"

subsection \<open>The loops of generate\_proc\_log\<close>

text \<open>Lines 282-297: the inner loop, adding the vertices of one ring.\<close>

definition build_ring ::
  "(Vector \<Rightarrow> real) \<Rightarrow> params \<Rightarrow> ring_frame \<Rightarrow> bmesh \<Rightarrow> py_error + bmesh \<times> nat list" where
  "build_ring noise p fr bm =
     for_each (py_range (verts_per_ring p))
       (\<lambda>j (bm, ring_vs).
          bind_err (ring_vertex noise p fr j) (\<lambda>co.
            case bm_verts_new bm co of (v, bm') \<Rightarrow> Inr (bm', ring_vs @ [v])))
       (bm, [])"

text \<open>Lines 242-299: the outer loop, building every cross-section ring.\<close>

definition build_rings ::
  "(Vector \<Rightarrow> real) \<Rightarrow> params \<Rightarrow> bmesh \<Rightarrow> py_error + bmesh \<times> nat list list" where
  "build_rings noise p bm =
     for_each (py_range (rings p + 1))
       (\<lambda>i (bm, rings_verts).
          bind_err (ring_setup p i) (\<lambda>fr.
          bind_err (build_ring noise p fr bm) (\<lambda>(bm', ring_vs).
            Inr (bm', rings_verts @ [ring_vs]))))
       (bm, [])"

text \<open>
  Lines 302-310: the quads between consecutive rings. Inside the inner loop
  \<open>verts_per_ring\<close> is positive and \<open>j + 1\<close> is not negative, where Python's \<^verbatim>\<open>%\<close> is
  \<open>mod\<close> on \<^typ>\<open>nat\<close>.
\<close>

definition connect_rings :: "params \<Rightarrow> nat list list \<Rightarrow> bmesh \<Rightarrow> py_error + bmesh" where
  "connect_rings p rings_verts bm =
     for_each (py_range (rings p))
       (\<lambda>i bm.
          bind_err (py_get rings_verts i) (\<lambda>A.
          bind_err (py_get rings_verts (i + 1)) (\<lambda>B.
            for_each (py_range (verts_per_ring p))
              (\<lambda>j bm.
                 bind_err (py_get A j) (\<lambda>a0.
                 bind_err (py_get A ((j + 1) mod nat (verts_per_ring p))) (\<lambda>a1.
                 bind_err (py_get B ((j + 1) mod nat (verts_per_ring p))) (\<lambda>b1.
                 bind_err (py_get B j) (\<lambda>b0.
                   bm_faces_new bm [a0, a1, b1, b0])))))
              bm)))
       bm"

text \<open>Lines 212-310: everything done on the bmesh.\<close>

definition build_log_bmesh :: "(Vector \<Rightarrow> real) \<Rightarrow> params \<Rightarrow> py_error + bmesh" where
  "build_log_bmesh noise p =
     bind_err (build_rings noise p bmesh_new) (\<lambda>(bm, rings_verts).
       connect_rings p rings_verts bm)"

subsection \<open>Mesh datablocks, objects and the scene\<close>

record mesh_data =
  vertices :: "Vector list"
  polygons :: "nat list list"
  use_smooth :: "bool list"

record object =
  obj_name :: string
  obj_location :: Vector
  obj_data :: mesh_data

text \<open>The objects linked to the scene collection, in the order they were linked.\<close>

type_synonym scene = "object list"

definition mesh_new :: mesh_data where
  "mesh_new = \<lparr> vertices = [], polygons = [], use_smooth = [] \<rparr>"

text \<open>\<^verbatim>\<open>bm.to_mesh(mesh)\<close>: vertices and faces in creation order, flat shaded.\<close>

definition bm_to_mesh :: "bmesh \<Rightarrow> mesh_data" where
  "bm_to_mesh bm =
     \<lparr> vertices = bm_verts bm, polygons = bm_faces bm,
       use_smooth = replicate (length (bm_faces bm)) False \<rparr>"

text \<open>Lines 316-317: smooth shading on every polygon.\<close>

definition shade_smooth :: "mesh_data \<Rightarrow> mesh_data" where
  "shade_smooth m = m\<lparr> use_smooth := map (\<lambda>_. True) (use_smooth m) \<rparr>"

text \<open>
  Lines 199-319. The mesh and its object are created and linked to the scene first
  (lines 207-210); the geometry reaches the mesh only with \<^verbatim>\<open>bm.to_mesh\<close> (line 312),
  so an exception raised before leaves the linked object with an empty mesh. The result
  is the returned object or the exception, with the scene as the call leaves it. The
  suffix Blender adds to an object name that is taken already is not modelled.
\<close>

definition generate_proc_log ::
  "(Vector \<Rightarrow> real) \<Rightarrow> string \<Rightarrow> params \<Rightarrow> Vector \<Rightarrow> scene \<Rightarrow> (py_error + object) \<times> scene" where
  "generate_proc_log noise name p location sc =
     (let obj = \<lparr> obj_name = name, obj_location = location, obj_data = mesh_new \<rparr>
      in case build_log_bmesh noise p of
           Inl e \<Rightarrow> (Inl e, sc @ [obj])
         | Inr bm \<Rightarrow>
             (let obj' = obj\<lparr> obj_data := shade_smooth (bm_to_mesh bm) \<rparr>
              in (Inr obj', sc @ [obj'])))"

subsection \<open>End caps (logs.py, lines 385-404)\<close>

text \<open>Lines 385-388: the coordinates of the first and of the last \<open>n\<close> vertices.\<close>

definition start_coords :: "object \<Rightarrow> int \<Rightarrow> Vector list" where
  "start_coords log_obj n = py_slice_to n (vertices (obj_data log_obj))"

definition end_coords :: "object \<Rightarrow> int \<Rightarrow> Vector list" where
  "end_coords log_obj n = py_slice_from (- n) (vertices (obj_data log_obj))"

text \<open>
  Lines 390-401: one polygon over the given coordinates, in reversed order when
  \<^verbatim>\<open>flip\<close> is set. The material slot is left out.
\<close>

definition make_cap :: "string \<Rightarrow> Vector list \<Rightarrow> bool \<Rightarrow> scene \<Rightarrow> (py_error + object) \<times> scene" where
  "make_cap name coords flip sc =
     (let obj = \<lparr> obj_name = name, obj_location = (0, 0, 0), obj_data = mesh_new \<rparr>;
          bm = bmesh_new\<lparr> bm_verts := coords \<rparr>;
          bm_vs = [0..<length coords];
          loop = (if flip then rev bm_vs else bm_vs)
      in case bm_faces_new bm loop of
           Inl e \<Rightarrow> (Inl e, sc @ [obj])
         | Inr bm' \<Rightarrow>
             (let obj' = obj\<lparr> obj_data := bm_to_mesh bm' \<rparr>
              in (Inr obj', sc @ [obj'])))"

subsection \<open>Notions used to state the properties\<close>

text \<open>The results of \<open>f\<close> over a list in order, or the first exception.\<close>

fun collect_err :: "('a \<Rightarrow> py_error + 'b) \<Rightarrow> 'a list \<Rightarrow> py_error + 'b list" where
  "collect_err f [] = Inr []"
| "collect_err f (x # xs) =
     bind_err (f x) (\<lambda>y. bind_err (collect_err f xs) (\<lambda>ys. Inr (y # ys)))"

text \<open>The vertex indices of consecutive rings, the first ring starting at index \<open>s\<close>.\<close>

fun ring_handles :: "nat \<Rightarrow> 'a list list \<Rightarrow> nat list list" where
  "ring_handles s [] = []"
| "ring_handles s (vs # vss) = [s..<s + length vs] # ring_handles (s + length vs) vss"

text \<open>The coordinates of ring \<open>i\<close> in angular order: what iteration \<open>i\<close> of the outer loop
  hands to \<^verbatim>\<open>bm.verts.new\<close>, or the exception it raises.\<close>

definition ring_points :: "(Vector \<Rightarrow> real) \<Rightarrow> params \<Rightarrow> nat \<Rightarrow> py_error + Vector list" where
  "ring_points noise p i =
     bind_err (ring_setup p i) (\<lambda>fr. collect_err (ring_vertex noise p fr) (py_range (verts_per_ring p)))"

text \<open>The coordinates of angular sample \<open>j\<close> of ring \<open>i\<close>.\<close>

definition ring_point :: "(Vector \<Rightarrow> real) \<Rightarrow> params \<Rightarrow> nat \<Rightarrow> nat \<Rightarrow> py_error + Vector" where
  "ring_point noise p i j = bind_err (ring_setup p i) (\<lambda>fr. ring_vertex noise p fr j)"

text \<open>The quad between rings \<open>i\<close> and \<open>i + 1\<close> at angular index \<open>j\<close>, as the specification
  writes it: \<open>[A[j], A[(j+1) mod n], B[(j+1) mod n], B[j]]\<close>, where vertex \<open>j\<close> of ring
  \<open>i\<close> has index \<open>i * n + j\<close> in the mesh.\<close>

definition quad :: "nat \<Rightarrow> nat \<Rightarrow> nat \<Rightarrow> nat list" where
  "quad n i j = [i * n + j, i * n + (j + 1) mod n, (i + 1) * n + (j + 1) mod n, (i + 1) * n + j]"

text \<open>All quads of a trunk of \<open>r\<close> ring pairs, ring pair by ring pair.\<close>

definition trunk_quads :: "nat \<Rightarrow> nat \<Rightarrow> nat list list" where
  "trunk_quads n r = concat (map (\<lambda>i. map (quad n i) [0..<n]) [0..<r])"

text \<open>Parameters for which the per-ring computations of lines 243-279 raise nothing.\<close>

definition setup_clean :: "params \<Rightarrow> bool" where
  "setup_clean p =
     (1 \<le> rings p \<and>
      upper (twist_direction p) \<in> set [''X'', ''Y'', ''Z''] \<and>
      (taper_shape p = ''exponential'' \<longrightarrow> 0 \<le> taper_rate p) \<and>
      (0 < oval_region_fraction p \<longrightarrow> ellipse_ratio p \<noteq> 0))"

text \<open>Parameters for which no statement of \<^verbatim>\<open>generate_proc_log\<close> raises.\<close>

definition runs_clean :: "params \<Rightarrow> bool" where
  "runs_clean p = (setup_clean p \<and> 3 \<le> verts_per_ring p \<and> groove_count p \<noteq> 0)"

text \<open>
  The int parameters that the generator converts to float (lines 267, 284, 287) are small
  enough for the conversion, and for the products formed with them, to stay finite. Outside
  of it Python raises \<^verbatim>\<open>OverflowError\<close>, or \<^verbatim>\<open>ValueError\<close> from the sine of an infinity,
  which the model does not have.
\<close>

definition float_sized :: "params \<Rightarrow> bool" where
  "float_sized p =
     (\<bar>curve_count p\<bar> \<le> 10 ^ 300 \<and> \<bar>groove_count p\<bar> \<le> 10 ^ 300 \<and>
      \<bar>verts_per_ring p\<bar> \<le> 10 ^ 300)"

text \<open>A noise function for concrete runs: zero everywhere.\<close>

definition zero_noise :: "Vector \<Rightarrow> real" where
  "zero_noise v = 0"

subsection \<open>Parameter records for concrete runs\<close>

text \<open>
  The editor defaults with no grooves; every value lies in its documented range.
\<close>

definition groove_free_params :: params where
  "groove_free_params = default_params\<lparr> groove_count := 0 \<rparr>"

text \<open>
  The editor defaults with an ellipse ratio of 7, above the documented maximum of 5.
\<close>

definition wide_ellipse_params :: params where
  "wide_ellipse_params = default_params\<lparr> ellipse_ratio := 7 \<rparr>"

text \<open>
  The editor defaults with zero rings.
\<close>

definition ringless_params :: params where
  "ringless_params = default_params\<lparr> rings := 0 \<rparr>"

text \<open>
  A noise function for concrete runs with a nonzero value: one half everywhere.
\<close>

definition half_noise :: "Vector \<Rightarrow> real" where
  "half_noise v = 1/2"

text \<open>
  The editor defaults with grooves of depth zero, so that only the roughness term changes the radii.
\<close>

definition grooveless_params :: params where
  "grooveless_params = default_params\<lparr> groove_depth := 0 \<rparr>"

text \<open>
  The editor defaults with the eccentric offset turned by one degree.
\<close>

definition tilted_params :: params where
  "tilted_params = default_params\<lparr> eccentricity_angle := 1 \<rparr>"

text \<open>
  The editor defaults with a twist of 90 degrees, the eccentric offset turned by one
  degree, and grooves of depth zero.
\<close>

definition twisted_params :: params where
  "twisted_params =
     default_params\<lparr> twist_angle := 90, eccentricity_angle := 1, groove_depth := 0 \<rparr>"

subsection \<open>The world point as the specification writes it\<close>

text \<open>
  The rotation by \<open>deg\<close> degrees about the named axis, applied to a point. Any axis
  other than X and Y is read as Z; the generator only gets here with one of the three.
\<close>

definition claimed_rotation :: "string \<Rightarrow> real \<Rightarrow> Vector \<Rightarrow> Vector" where
  "claimed_rotation axis deg v =
     (case v of (x, y, z) \<Rightarrow>
        let a = deg * pi / 180
        in if axis = ''X'' then (x, y * cos a - z * sin a, y * sin a + z * cos a)
           else if axis = ''Y'' then (x * cos a + z * sin a, y, z * cos a - x * sin a)
           else (x * cos a - y * sin a, x * sin a + y * cos a, z))"

text \<open>
  The centerline point \<open>(curve_strength sin(2 pi curve_count t), curve_strength cos(2 pi curve_count t), length t)\<close>.
\<close>

definition claimed_centerline :: "params \<Rightarrow> real \<Rightarrow> Vector" where
  "claimed_centerline p t =
     (curve_strength p * sin (2 * pi * real_of_int (curve_count p) * t),
      curve_strength p * cos (2 * pi * real_of_int (curve_count p) * t),
      length_p p * t)"

text \<open>
  The eccentric offset as the claim writes it, the cosine and sine taken of the
  parameter \<open>eccentricity_angle\<close> itself.
\<close>

definition claimed_eccentric :: "params \<Rightarrow> Vector" where
  "claimed_eccentric p =
     (eccentricity_offset p * cos (eccentricity_angle p),
      eccentricity_offset p * sin (eccentricity_angle p), 0)"

text \<open>
  The same offset with \<open>eccentricity_angle\<close> read in degrees.
\<close>

definition eccentric_degrees :: "params \<Rightarrow> Vector" where
  "eccentric_degrees p =
     (eccentricity_offset p * cos (eccentricity_angle p * pi / 180),
      eccentricity_offset p * sin (eccentricity_angle p * pi / 180), 0)"

text \<open>
  The world point of the claim: rotation of the local point first, then the centerline
  point and the eccentric offset added.
\<close>

definition claimed_world_point :: "params \<Rightarrow> real \<Rightarrow> Vector \<Rightarrow> Vector" where
  "claimed_world_point p t lp =
     vadd (vadd (claimed_rotation (upper (twist_direction p)) (twist_angle p * t) lp)
                (claimed_centerline p t))
          (claimed_eccentric p)"

text \<open>
  The world point with the eccentric angle read in degrees.
\<close>

definition amended_world_point :: "params \<Rightarrow> real \<Rightarrow> Vector \<Rightarrow> Vector" where
  "amended_world_point p t lp =
     vadd (vadd (claimed_rotation (upper (twist_direction p)) (twist_angle p * t) lp)
                (claimed_centerline p t))
          (eccentric_degrees p)"


subsection \<open>The quadratic taper in binary64 arithmetic\<close>

text \<open>
  Python floats are IEEE 754 binary64 numbers, and every arithmetic operation returns the
  exact result rounded to the nearest number with a 53-bit significand, ties to the even
  significand. Here this rounding is written out for the quadratic taper (lines 251-253);
  the exponent range is left unbounded, which agrees with binary64 as long as no result
  overflows or falls below the normal range.
\<close>









section \<open>Loops as list functions\<close>

subsection \<open>Sequencing and the vertex loops\<close>

lemma bind_err_simps [simp]:
  "bind_err (Inl e) f = Inl e"
  "bind_err (Inr x) f = f x"
  by (simp_all add: bind_err_def)

lemma bind_err_Inr_iff: "bind_err m f = Inr y \<longleftrightarrow> (\<exists>x. m = Inr x \<and> f x = Inr y)"
  by (cases m) simp_all

lemma for_each_append:
  "for_each (xs @ ys) body s = bind_err (for_each xs body s) (for_each ys body)"
  by (induction xs arbitrary: s) (auto simp: bind_err_def split: sum.splits)

lemma upt_shift: "s # [Suc s..<Suc (s + k)] = [s..<Suc (s + k)]"
  by (simp add: upt_conv_Cons del: upt_Suc)

lemma vertex_loop:
  "for_each js
     (\<lambda>j (bm, ring_vs). bind_err (f j) (\<lambda>co.
         case bm_verts_new bm co of (v, bm') \<Rightarrow> Inr (bm', ring_vs @ [v])))
     (bm, acc)
   = bind_err (collect_err f js) (\<lambda>vs.
       Inr (bm\<lparr> bm_verts := bm_verts bm @ vs \<rparr>,
            acc @ [length (bm_verts bm)..<length (bm_verts bm) + length vs]))"
  (is "for_each js ?body (bm, acc) = _")
proof (induction js arbitrary: bm acc)
  case Nil
  show ?case by simp
next
  case (Cons j js)
  show ?case
  proof (cases "f j")
    case (Inl e)
    then show ?thesis by simp
  next
    case (Inr co)
    have step: "?body j (bm, acc) =
        Inr (bm\<lparr> bm_verts := bm_verts bm @ [co] \<rparr>, acc @ [length (bm_verts bm)])"
      by (simp add: Inr bm_verts_new_def)
    have "for_each (j # js) ?body (bm, acc) =
        for_each js ?body (bm\<lparr> bm_verts := bm_verts bm @ [co] \<rparr>, acc @ [length (bm_verts bm)])"
      by (simp only: for_each.simps step sum.case)
    also have "\<dots> = bind_err (collect_err f (j # js)) (\<lambda>vs.
       Inr (bm\<lparr> bm_verts := bm_verts bm @ vs \<rparr>,
            acc @ [length (bm_verts bm)..<length (bm_verts bm) + length vs]))"
      unfolding Cons.IH
      by (cases "collect_err f js") (simp_all add: Inr upt_shift del: upt_Suc)
    finally show ?thesis .
  qed
qed

lemma build_ring_eq:
  "build_ring noise p fr bm =
     bind_err (collect_err (ring_vertex noise p fr) (py_range (verts_per_ring p))) (\<lambda>vs.
       Inr (bm\<lparr> bm_verts := bm_verts bm @ vs \<rparr>,
            [length (bm_verts bm)..<length (bm_verts bm) + length vs]))"
  unfolding build_ring_def by (simp add: vertex_loop)

lemma rings_loop:
  "for_each is
     (\<lambda>i (bm, rings_verts).
          bind_err (ring_setup p i) (\<lambda>fr.
          bind_err (build_ring noise p fr bm) (\<lambda>(bm', ring_vs).
            Inr (bm', rings_verts @ [ring_vs]))))
     (bm, acc)
   = bind_err (collect_err (ring_points noise p) is) (\<lambda>vss.
       Inr (bm\<lparr> bm_verts := bm_verts bm @ concat vss \<rparr>,
            acc @ ring_handles (length (bm_verts bm)) vss))"
  (is "for_each is ?body (bm, acc) = _")
proof (induction "is" arbitrary: bm acc)
  case Nil
  show ?case by simp
next
  case (Cons i "is")
  show ?case
  proof (cases "ring_points noise p i")
    case (Inl e)
    then show ?thesis
      by (cases "ring_setup p i") (simp_all add: ring_points_def build_ring_eq)
  next
    case (Inr vs)
    then obtain fr where fr: "ring_setup p i = Inr fr"
      and vs: "collect_err (ring_vertex noise p fr) (py_range (verts_per_ring p)) = Inr vs"
      by (auto simp: ring_points_def bind_err_Inr_iff)
    have step: "?body i (bm, acc) =
        Inr (bm\<lparr> bm_verts := bm_verts bm @ vs \<rparr>,
             acc @ [[length (bm_verts bm)..<length (bm_verts bm) + length vs]])"
      by (simp add: fr vs build_ring_eq)
    have "for_each (i # is) ?body (bm, acc) =
        for_each is ?body (bm\<lparr> bm_verts := bm_verts bm @ vs \<rparr>,
             acc @ [[length (bm_verts bm)..<length (bm_verts bm) + length vs]])"
      by (simp only: for_each.simps step sum.case)
    also have "\<dots> = bind_err (collect_err (ring_points noise p) (i # is)) (\<lambda>vss.
       Inr (bm\<lparr> bm_verts := bm_verts bm @ concat vss \<rparr>,
            acc @ ring_handles (length (bm_verts bm)) vss))"
      unfolding Cons.IH
      by (cases "collect_err (ring_points noise p) is") (simp_all add: Inr)
    finally show ?thesis .
  qed
qed

lemma build_rings_eq:
  "build_rings noise p bm =
     bind_err (collect_err (ring_points noise p) (py_range (rings p + 1))) (\<lambda>vss.
       Inr (bm\<lparr> bm_verts := bm_verts bm @ concat vss \<rparr>,
            ring_handles (length (bm_verts bm)) vss))"
  unfolding build_rings_def by (simp add: rings_loop)

subsection \<open>Collected results and rings of equal size\<close>

lemma collect_err_Inr_iff:
  "collect_err f xs = Inr ys \<longleftrightarrow> list_all2 (\<lambda>x y. f x = Inr y) xs ys"
proof (induction xs arbitrary: ys)
  case Nil
  show ?case by auto
next
  case (Cons x xs)
  show ?case
    by (cases ys) (auto simp: bind_err_Inr_iff Cons)
qed

lemma collect_err_length: "collect_err f xs = Inr ys \<Longrightarrow> length ys = length xs"
  by (simp add: collect_err_Inr_iff list_all2_lengthD)

lemma collect_err_nth:
  "collect_err f xs = Inr ys \<Longrightarrow> k < length xs \<Longrightarrow> f (xs ! k) = Inr (ys ! k)"
  by (auto simp: collect_err_Inr_iff dest: list_all2_nthD)

lemma collect_err_total:
  "(\<And>x. x \<in> set xs \<Longrightarrow> \<exists>y. f x = Inr y) \<Longrightarrow> \<exists>ys. collect_err f xs = Inr ys"
proof (induction xs)
  case Nil
  show ?case by simp
next
  case (Cons x xs)
  from Cons.prems obtain y where y: "f x = Inr y" by auto
  from Cons obtain ys where "collect_err f xs = Inr ys" by auto
  with y show ?case by simp
qed

lemma ring_points_length:
  "ring_points noise p i = Inr vs \<Longrightarrow> length vs = nat (verts_per_ring p)"
  by (auto simp: ring_points_def bind_err_Inr_iff py_range_def dest: collect_err_length)

lemma rings_uniform:
  assumes "collect_err (ring_points noise p) is = Inr vss"
  shows "\<forall>vs \<in> set vss. length vs = nat (verts_per_ring p)"
proof
  fix vs assume "vs \<in> set vss"
  then obtain k where k: "k < length vss" "vss ! k = vs" by (auto simp: in_set_conv_nth)
  with assms have "ring_points noise p (is ! k) = Inr vs"
    using collect_err_nth [OF assms, of k] collect_err_length [OF assms] by simp
  then show "length vs = nat (verts_per_ring p)" by (rule ring_points_length)
qed

lemma ring_handles_uniform:
  "\<forall>vs \<in> set vss. length vs = n \<Longrightarrow>
   ring_handles s vss = map (\<lambda>i. [s + i * n..<s + i * n + n]) [0..<length vss]"
proof (induction vss arbitrary: s)
  case Nil
  show ?case by simp
next
  case (Cons vs vss)
  have "ring_handles (s + n) vss = map (\<lambda>i. [s + n + i * n..<s + n + i * n + n]) [0..<length vss]"
    using Cons by simp
  then show ?case using Cons.prems
    by (simp add: map_upt_Suc add.assoc del: upt_Suc)
qed

lemma concat_uniform_length:
  "\<forall>vs \<in> set vss. length vs = n \<Longrightarrow> length (concat vss) = length vss * n"
  by (induction vss) simp_all

lemma concat_uniform_nth:
  "\<forall>vs \<in> set vss. length vs = n \<Longrightarrow> i < length vss \<Longrightarrow> j < n \<Longrightarrow>
   concat vss ! (i * n + j) = vss ! i ! j"
proof (induction vss arbitrary: i)
  case Nil
  then show ?case by simp
next
  case (Cons vs vss)
  show ?case
  proof (cases i)
    case 0
    with Cons.prems show ?thesis by (simp add: nth_append)
  next
    case (Suc k)
    with Cons.prems have "concat vss ! (k * n + j) = vss ! k ! j"
      by (intro Cons.IH) auto
    with Suc Cons.prems show ?thesis by (simp add: nth_append add.assoc)
  qed
qed

lemma ring_point_of_collect:
  assumes "collect_err (ring_points noise p) (py_range (rings p + 1)) = Inr vss"
    and "int i \<le> rings p" and "int j < verts_per_ring p"
  shows "ring_point noise p i j = Inr (vss ! i ! j)"
proof -
  have i: "i < length (py_range (rings p + 1))" using assms(2) by (simp add: py_range_def)
  then have "ring_points noise p i = Inr (vss ! i)"
    using collect_err_nth [OF assms(1) i] by (simp add: py_range_def)
  then obtain fr where fr: "ring_setup p i = Inr fr"
    and vs: "collect_err (ring_vertex noise p fr) (py_range (verts_per_ring p)) = Inr (vss ! i)"
    by (auto simp: ring_points_def bind_err_Inr_iff)
  have j: "j < length (py_range (verts_per_ring p))" using assms(3) by (simp add: py_range_def)
  have "ring_vertex noise p fr j = Inr (vss ! i ! j)"
    using collect_err_nth [OF vs j] j by (simp add: py_range_def)
  with fr show ?thesis by (simp add: ring_point_def)
qed

subsection \<open>The quads are pairwise different faces\<close>

lemma idx_unique:
  fixes n :: nat
  assumes "x < n" "y < n" "a * n + x = b * n + y"
  shows "a = b \<and> x = y"
proof -
  have "(a * n + x) div n = a" "(a * n + x) mod n = x" using assms(1) by simp_all
  moreover have "(b * n + y) div n = b" "(b * n + y) mod n = y" using assms(2) by simp_all
  ultimately show ?thesis using assms(3) by metis
qed

lemma succ_mod_cycle:
  fixes n :: nat
  assumes "3 \<le> n" "j < n" "j' < n" "j = (j' + 1) mod n" "j' = (j + 1) mod n"
  shows False
proof (cases "j' + 1 < n")
  case True
  then have j: "j = j' + 1" using assms(4) by simp
  show False
  proof (cases "j + 1 < n")
    case True
    then have "j' = j + 1" using assms(5) by simp
    with j show False by simp
  next
    case False
    with assms(2) have "j + 1 = n" by simp
    then have "j' = 0" using assms(5) by simp
    with j \<open>j + 1 = n\<close> assms(1) show False by simp
  qed
next
  case False
  with assms(3) have e: "j' + 1 = n" by simp
  then have j: "j = 0" using assms(4) by simp
  have "(1::nat) < n" using assms(1) by simp
  then have "j' = 1" using assms(5) j by simp
  with e assms(1) show False by simp
qed

lemma quad_set:
  "set (quad n i j) = {i * n + j, i * n + (j + 1) mod n, (i + 1) * n + (j + 1) mod n, (i + 1) * n + j}"
  by (simp add: quad_def)

lemma quad_ring_le:
  assumes n: "3 \<le> n" and j: "j < n" "j' < n"
    and sub: "set (quad n i j) \<subseteq> set (quad n i' j')"
  shows "i = i' \<and> (j = j' \<or> j = (j' + 1) mod n)"
proof -
  have m: "(j' + 1) mod n < n" using n by simp
  have "i * n + j \<in> set (quad n i' j')" using sub by (auto simp: quad_set)
  then consider "i * n + j = i' * n + j'" | "i * n + j = i' * n + (j' + 1) mod n"
    | "i * n + j = (i' + 1) * n + (j' + 1) mod n" | "i * n + j = (i' + 1) * n + j'"
    by (auto simp: quad_set)
  then have lo: "(i = i' \<and> (j = j' \<or> j = (j' + 1) mod n)) \<or> i = i' + 1"
  proof cases
    case 1 then show ?thesis using idx_unique [OF j(1) j(2)] by blast
  next
    case 2 then show ?thesis using idx_unique [OF j(1) m] by blast
  next
    case 3 then show ?thesis using idx_unique [OF j(1) m] by blast
  next
    case 4 then show ?thesis using idx_unique [OF j(1) j(2)] by blast
  qed
  have "(i + 1) * n + j \<in> set (quad n i' j')" using sub by (auto simp: quad_set)
  then consider "(i + 1) * n + j = i' * n + j'" | "(i + 1) * n + j = i' * n + (j' + 1) mod n"
    | "(i + 1) * n + j = (i' + 1) * n + (j' + 1) mod n" | "(i + 1) * n + j = (i' + 1) * n + j'"
    by (auto simp: quad_set)
  then have hi: "i + 1 = i' \<or> i + 1 = i' + 1"
  proof cases
    case 1 then show ?thesis using idx_unique [OF j(1) j(2)] by blast
  next
    case 2 then show ?thesis using idx_unique [OF j(1) m] by blast
  next
    case 3 then show ?thesis using idx_unique [OF j(1) m] by blast
  next
    case 4 then show ?thesis using idx_unique [OF j(1) j(2)] by blast
  qed
  from lo hi show ?thesis by auto
qed

lemma quad_set_inj:
  assumes n: "3 \<le> n" and j: "j < n" "j' < n"
    and eq: "set (quad n i j) = set (quad n i' j')"
  shows "i = i' \<and> j = j'"
proof -
  have s1: "set (quad n i j) \<subseteq> set (quad n i' j')"
    and s2: "set (quad n i' j') \<subseteq> set (quad n i j)"
    using eq by simp_all
  have a: "i = i' \<and> (j = j' \<or> j = (j' + 1) mod n)"
    by (rule quad_ring_le [OF n j s1])
  have b: "i' = i \<and> (j' = j \<or> j' = (j + 1) mod n)"
    by (rule quad_ring_le [OF n j(2) j(1) s2])
  show ?thesis using a b succ_mod_cycle [OF n j] by blast
qed

lemma four_distinct:
  fixes n :: nat
  assumes "k < n" "j < n" "k \<noteq> j"
  shows "distinct [i * n + j, i * n + k, (i + 1) * n + k, (i + 1) * n + j]"
  using assms by auto

lemma quad_distinct:
  assumes "2 \<le> n" "j < n"
  shows "distinct (quad n i j)"
proof -
  have m: "(j + 1) mod n < n" using assms by simp
  have ne: "(j + 1) mod n \<noteq> j"
  proof (cases "j + 1 < n")
    case True then show ?thesis by simp
  next
    case False
    with assms have "j + 1 = n" by simp
    then show ?thesis using assms by simp
  qed
  show ?thesis unfolding quad_def by (rule four_distinct [OF m assms(2) ne])
qed

subsection \<open>The face loops\<close>

lemma for_each_cong:
  "(\<And>x s. x \<in> set xs \<Longrightarrow> f x s = g x s) \<Longrightarrow> for_each xs f s = for_each xs g s"
  by (induction xs arbitrary: s) (auto split: sum.splits)

lemma faces_loop:
  assumes "\<forall>x \<in> set xs. 3 \<le> length (g x) \<and> distinct (g x)"
    and "distinct (map (\<lambda>x. set (g x)) xs)"
    and "\<forall>x \<in> set xs. \<forall>f \<in> set (bm_faces bm). set f \<noteq> set (g x)"
  shows "for_each xs (\<lambda>x bm. bm_faces_new bm (g x)) bm =
         Inr (bm\<lparr> bm_faces := bm_faces bm @ map g xs \<rparr>)"
  using assms
proof (induction xs arbitrary: bm)
  case Nil
  show ?case by simp
next
  case (Cons x xs)
  let ?bm = "bm\<lparr> bm_faces := bm_faces bm @ [g x] \<rparr>"
  have new: "bm_faces_new bm (g x) = Inr ?bm"
    using Cons.prems by (auto simp: bm_faces_new_def list_ex_iff)
  have "for_each xs (\<lambda>x bm. bm_faces_new bm (g x)) ?bm =
        Inr (?bm\<lparr> bm_faces := bm_faces ?bm @ map g xs \<rparr>)"
  proof (rule Cons.IH)
    show "\<forall>x \<in> set xs. 3 \<le> length (g x) \<and> distinct (g x)" using Cons.prems(1) by simp
    show "distinct (map (\<lambda>x. set (g x)) xs)" using Cons.prems(2) by simp
    show "\<forall>y \<in> set xs. \<forall>f \<in> set (bm_faces ?bm). set f \<noteq> set (g y)"
      using Cons.prems(2,3) by auto
  qed
  then show ?case by (simp add: new)
qed

lemma quads_of_ring:
  assumes n: "3 \<le> n" and vpr: "verts_per_ring p = int n"
    and rv: "rings_verts = map (\<lambda>i. [i * n..<i * n + n]) [0..<Suc r]"
    and i: "i < r"
    and old: "\<forall>f \<in> set (bm_faces bm). \<forall>j < n. set f \<noteq> set (quad n i j)"
  shows "bind_err (py_get rings_verts i) (\<lambda>A.
          bind_err (py_get rings_verts (i + 1)) (\<lambda>B.
            for_each (py_range (verts_per_ring p))
              (\<lambda>j bm.
                 bind_err (py_get A j) (\<lambda>a0.
                 bind_err (py_get A ((j + 1) mod nat (verts_per_ring p))) (\<lambda>a1.
                 bind_err (py_get B ((j + 1) mod nat (verts_per_ring p))) (\<lambda>b1.
                 bind_err (py_get B j) (\<lambda>b0.
                   bm_faces_new bm [a0, a1, b1, b0])))))
              bm))
         = Inr (bm\<lparr> bm_faces := bm_faces bm @ map (quad n i) [0..<n] \<rparr>)"
proof -
  let ?A = "[i * n..<i * n + n]" and ?B = "[(i + 1) * n..<(i + 1) * n + n]"
  have gA: "py_get rings_verts i = Inr ?A"
    using i unfolding rv py_get_def by (simp add: nth_append del: upt_Suc)
  have gB: "py_get rings_verts (i + 1) = Inr ?B"
    using i unfolding rv py_get_def by (simp add: nth_append del: upt_Suc)
  have loop: "for_each [0..<n] (\<lambda>j bm. bm_faces_new bm (quad n i j)) bm =
      Inr (bm\<lparr> bm_faces := bm_faces bm @ map (quad n i) [0..<n] \<rparr>)"
  proof (rule faces_loop)
    show "\<forall>j \<in> set [0..<n]. 3 \<le> length (quad n i j) \<and> distinct (quad n i j)"
      using n by (auto simp: quad_distinct) (simp add: quad_def)
    show "distinct (map (\<lambda>j. set (quad n i j)) [0..<n])"
      using n by (auto simp: distinct_map inj_on_def dest: quad_set_inj [rotated -1])
    show "\<forall>j \<in> set [0..<n]. \<forall>f \<in> set (bm_faces bm). set f \<noteq> set (quad n i j)"
      using old by auto
  qed
  have "bind_err (py_get rings_verts i) (\<lambda>A.
          bind_err (py_get rings_verts (i + 1)) (\<lambda>B.
            for_each (py_range (verts_per_ring p))
              (\<lambda>j bm.
                 bind_err (py_get A j) (\<lambda>a0.
                 bind_err (py_get A ((j + 1) mod nat (verts_per_ring p))) (\<lambda>a1.
                 bind_err (py_get B ((j + 1) mod nat (verts_per_ring p))) (\<lambda>b1.
                 bind_err (py_get B j) (\<lambda>b0.
                   bm_faces_new bm [a0, a1, b1, b0])))))
              bm))
      = for_each [0..<n]
          (\<lambda>j bm.
             bind_err (py_get ?A j) (\<lambda>a0.
             bind_err (py_get ?A ((j + 1) mod n)) (\<lambda>a1.
             bind_err (py_get ?B ((j + 1) mod n)) (\<lambda>b1.
             bind_err (py_get ?B j) (\<lambda>b0.
               bm_faces_new bm [a0, a1, b1, b0])))))
          bm"
    by (simp only: gA gB bind_err_simps py_range_def vpr nat_int)
  also have "\<dots> = for_each [0..<n] (\<lambda>j bm. bm_faces_new bm (quad n i j)) bm"
  proof (rule for_each_cong)
    fix j :: nat and bm :: bmesh
    assume "j \<in> set [0..<n]"
    then have j: "j < n" by simp
    have m: "(j + 1) mod n < n" using n by simp
    show "bind_err (py_get ?A j) (\<lambda>a0.
        bind_err (py_get ?A ((j + 1) mod n)) (\<lambda>a1.
        bind_err (py_get ?B ((j + 1) mod n)) (\<lambda>b1.
        bind_err (py_get ?B j) (\<lambda>b0.
          bm_faces_new bm [a0, a1, b1, b0]))))
      = bm_faces_new bm (quad n i j)"
      using j m by (simp add: py_get_def quad_def)
  qed
  also note loop
  finally show ?thesis .
qed

lemma trunk_quads_Suc: "trunk_quads n (Suc k) = trunk_quads n k @ map (quad n k) [0..<n]"
  by (simp add: trunk_quads_def)

lemma trunk_quads_mem:
  "f \<in> set (trunk_quads n k) \<Longrightarrow> \<exists>i j. i < k \<and> j < n \<and> f = quad n i j"
  by (auto simp: trunk_quads_def) blast

lemma for_each_single: "for_each [x] body s = body x s"
  by (cases "body x s") simp_all

lemma connect_rings_prefix:
  assumes n: "3 \<le> n" and vpr: "verts_per_ring p = int n"
    and rv: "rings_verts = map (\<lambda>i. [i * n..<i * n + n]) [0..<Suc r]"
    and empty: "bm_faces bm = []"
    and k: "k \<le> r"
  shows "for_each [0..<k]
       (\<lambda>i bm.
          bind_err (py_get rings_verts i) (\<lambda>A.
          bind_err (py_get rings_verts (i + 1)) (\<lambda>B.
            for_each (py_range (verts_per_ring p))
              (\<lambda>j bm.
                 bind_err (py_get A j) (\<lambda>a0.
                 bind_err (py_get A ((j + 1) mod nat (verts_per_ring p))) (\<lambda>a1.
                 bind_err (py_get B ((j + 1) mod nat (verts_per_ring p))) (\<lambda>b1.
                 bind_err (py_get B j) (\<lambda>b0.
                   bm_faces_new bm [a0, a1, b1, b0])))))
              bm)))
       bm = Inr (bm\<lparr> bm_faces := trunk_quads n k \<rparr>)"
  (is "for_each _ ?outer bm = _")
  using k
proof (induction k)
  case 0
  show ?case using empty by (simp add: trunk_quads_def)
next
  case (Suc k)
  let ?bm = "bm\<lparr> bm_faces := trunk_quads n k \<rparr>"
  have prev: "for_each [0..<k] ?outer bm = Inr ?bm" using Suc by simp
  have old: "\<forall>f \<in> set (bm_faces ?bm). \<forall>j < n. set f \<noteq> set (quad n k j)"
  proof (intro ballI allI impI notI)
    fix f j assume f: "f \<in> set (bm_faces ?bm)" and j: "j < n" and eq: "set f = set (quad n k j)"
    from f obtain i' j' where ij: "i' < k" "j' < n" "f = quad n i' j'"
      using trunk_quads_mem [of f n k] by auto
    with eq have "set (quad n i' j') = set (quad n k j)" by simp
    from quad_set_inj [OF n ij(2) j this] ij(1) show False by simp
  qed
  have kr: "k < r" using Suc.prems by simp
  have step: "?outer k ?bm = Inr (?bm\<lparr> bm_faces := bm_faces ?bm @ map (quad n k) [0..<n] \<rparr>)"
    by (rule quads_of_ring [OF n vpr rv kr old])
  have "for_each [0..<Suc k] ?outer bm = bind_err (for_each [0..<k] ?outer bm) (for_each [k] ?outer)"
    by (simp only: upt_Suc_append [OF le0] for_each_append)
  also have "\<dots> = ?outer k ?bm"
    by (simp only: prev bind_err_simps for_each_single)
  also have "\<dots> = Inr (bm\<lparr> bm_faces := trunk_quads n (Suc k) \<rparr>)"
    by (simp only: step) (simp add: trunk_quads_Suc)
  finally show ?case .
qed

lemma connect_rings_eq:
  assumes "3 \<le> n" and "verts_per_ring p = int n" and "rings p = int r"
    and "rings_verts = map (\<lambda>i. [i * n..<i * n + n]) [0..<Suc r]"
    and "bm_faces bm = []"
  shows "connect_rings p rings_verts bm = Inr (bm\<lparr> bm_faces := trunk_quads n r \<rparr>)"
  unfolding connect_rings_def assms(3) py_range_def [of "int r"] nat_int
  by (rule connect_rings_prefix [OF assms(1,2,4,5) order_refl])

lemma build_log_bmesh_eq:
  assumes r: "0 \<le> rings p" and n: "3 \<le> verts_per_ring p"
  shows "build_log_bmesh noise p =
     bind_err (collect_err (ring_points noise p) (py_range (rings p + 1))) (\<lambda>vss.
       Inr \<lparr> bm_verts = concat vss,
             bm_faces = trunk_quads (nat (verts_per_ring p)) (nat (rings p)) \<rparr>)"
proof (cases "collect_err (ring_points noise p) (py_range (rings p + 1))")
  case (Inl e)
  then show ?thesis by (simp add: build_log_bmesh_def build_rings_eq)
next
  case (Inr vss)
  let ?n = "nat (verts_per_ring p)" and ?r = "nat (rings p)"
  have len: "length vss = Suc ?r"
    using collect_err_length [OF Inr] r by (simp add: py_range_def nat_add_distrib)
  have uni: "\<forall>vs \<in> set vss. length vs = ?n" by (rule rings_uniform [OF Inr])
  have rv: "ring_handles 0 vss = map (\<lambda>i. [i * ?n..<i * ?n + ?n]) [0..<Suc ?r]"
    using ring_handles_uniform [OF uni, of 0] len by simp
  have "connect_rings p (ring_handles 0 vss) \<lparr> bm_verts = concat vss, bm_faces = [] \<rparr>
      = Inr (\<lparr> bm_verts = concat vss, bm_faces = [] \<rparr>\<lparr> bm_faces := trunk_quads ?n ?r \<rparr>)"
    by (rule connect_rings_eq [OF _ _ _ rv]) (use r n in simp_all)
  then show ?thesis
    by (simp add: build_log_bmesh_def build_rings_eq Inr bmesh_new_def)
qed

subsection \<open>When nothing raises\<close>

lemma py_pow_ok: "0 \<le> y \<or> x \<noteq> 0 \<Longrightarrow> \<exists>z. py_pow x y = Inr z"
  by (auto simp: py_pow_def)

lemma taper_radius_ok:
  assumes "taper_shape p = ''exponential'' \<longrightarrow> 0 \<le> taper_rate p"
  shows "\<exists>radius. taper_radius p t = Inr radius"
proof (cases "taper_shape p = ''exponential''")
  case True
  with assms obtain z where "py_pow t (taper_rate p) = Inr z"
    using py_pow_ok [of "taper_rate p" t] by auto
  with True show ?thesis by (simp add: taper_radius_def)
next
  case False
  then show ?thesis by (simp add: taper_radius_def)
qed

lemma ellipse_radii_ok:
  assumes "0 < oval_region_fraction p \<longrightarrow> ellipse_ratio p \<noteq> 0" and "0 \<le> t"
  shows "\<exists>r. ellipse_radii p t radius = Inr r"
  using assms by (simp add: ellipse_radii_def py_truediv_def del: split_paired_Ex)

lemma Matrix_Rotation_ok:
  "axis \<in> set [''X'', ''Y'', ''Z''] \<Longrightarrow> \<exists>rot. Matrix_Rotation angle axis = Inr rot"
  by (auto simp: Matrix_Rotation_def simp del: split_paired_Ex)

lemma ring_setup_ok:
  assumes "setup_clean p"
  shows "\<exists>fr. ring_setup p i = Inr fr"
proof -
  let ?t = "real i / real_of_int (rings p)"
  have r: "rings p \<noteq> 0" and t: "0 \<le> ?t" using assms by (simp_all add: setup_clean_def)
  have d: "py_truediv (real i) (real_of_int (rings p)) = Inr ?t"
    using r by (simp add: py_truediv_def)
  obtain radius where tr: "taper_radius p ?t = Inr radius"
    using taper_radius_ok [of p ?t] assms unfolding setup_clean_def by blast
  obtain rr where el: "ellipse_radii p ?t radius = Inr rr"
    using ellipse_radii_ok [OF _ t, of p radius] assms unfolding setup_clean_def by blast
  obtain rot where
    rot: "Matrix_Rotation (radians (twist_angle p) * ?t) (upper (twist_direction p)) = Inr rot"
    using Matrix_Rotation_ok [of "upper (twist_direction p)"] assms
    unfolding setup_clean_def by blast
  show ?thesis
    unfolding ring_setup_def d tr el Let_def rot bind_err_simps by blast
qed

lemma groove_term_ok: "groove_count p \<noteq> 0 \<Longrightarrow> \<exists>g. groove_term p theta = Inr g"
  by (simp add: groove_term_def py_truediv_def py_fmod_def Let_def)

lemma groove_depth_zero:
  assumes "groove_depth p = 0" and "groove_count p \<noteq> 0"
  shows "groove_term p theta = Inr 0"
  using assms by (simp add: groove_term_def py_truediv_def py_fmod_def Let_def)

lemma ring_vertex_ok:
  assumes "groove_count p \<noteq> 0" and "verts_per_ring p \<noteq> 0"
  shows "\<exists>v. ring_vertex noise p fr j = Inr v"
proof -
  let ?theta = "2 * pi * real j / real_of_int (verts_per_ring p)"
  obtain g where g: "groove_term p ?theta = Inr g"
    using groove_term_ok [OF assms(1)] by blast
  show ?thesis
    using assms(2)
    by (simp add: ring_vertex_def local_point_def sample_radii_def py_truediv_def g Let_def
          del: split_paired_Ex)
qed

lemma ring_points_ok:
  assumes "runs_clean p"
  shows "\<exists>vs. ring_points noise p i = Inr vs"
proof -
  obtain fr where fr: "ring_setup p i = Inr fr"
    using ring_setup_ok [of p i] assms by (auto simp: runs_clean_def)
  have "\<exists>vs. collect_err (ring_vertex noise p fr) (py_range (verts_per_ring p)) = Inr vs"
  proof (rule collect_err_total)
    fix j
    show "\<exists>v. ring_vertex noise p fr j = Inr v"
      by (rule ring_vertex_ok) (use assms in \<open>simp_all add: runs_clean_def\<close>)
  qed
  with fr show ?thesis by (simp add: ring_points_def)
qed

lemma all_rings_ok:
  assumes "runs_clean p"
  shows "\<exists>vss. collect_err (ring_points noise p) (py_range (rings p + 1)) = Inr vss"
  by (rule collect_err_total) (rule ring_points_ok [OF assms])

subsection \<open>The generated trunk\<close>

lemma generate_Inr_iff:
  "generate_proc_log noise name p location sc = (Inr ob, sc') \<longleftrightarrow>
     (\<exists>bm. build_log_bmesh noise p = Inr bm \<and>
        ob = \<lparr> obj_name = name, obj_location = location,
                obj_data = shade_smooth (bm_to_mesh bm) \<rparr> \<and>
        sc' = sc @ [ob])"
  by (cases "build_log_bmesh noise p") (auto simp: generate_proc_log_def Let_def)

lemma generate_Inl_iff:
  "generate_proc_log noise name p location sc = (Inl e, sc') \<longleftrightarrow>
     (build_log_bmesh noise p = Inl e \<and>
      sc' = sc @ [\<lparr> obj_name = name, obj_location = location, obj_data = mesh_new \<rparr>])"
  by (cases "build_log_bmesh noise p") (auto simp: generate_proc_log_def Let_def)

lemma generate_trunk:
  assumes gen: "generate_proc_log noise name p location sc = (Inr ob, sc')"
    and r: "0 \<le> rings p" and n: "3 \<le> verts_per_ring p"
  shows "\<exists>vss. collect_err (ring_points noise p) (py_range (rings p + 1)) = Inr vss \<and>
           vertices (obj_data ob) = concat vss \<and>
           polygons (obj_data ob) = trunk_quads (nat (verts_per_ring p)) (nat (rings p)) \<and>
           sc' = sc @ [ob]"
proof -
  from gen obtain bm where bm: "build_log_bmesh noise p = Inr bm"
    and ob: "ob = \<lparr> obj_name = name, obj_location = location,
                obj_data = shade_smooth (bm_to_mesh bm) \<rparr>" and sc: "sc' = sc @ [ob]"
    by (auto simp: generate_Inr_iff)
  from bm obtain vss where
    vss: "collect_err (ring_points noise p) (py_range (rings p + 1)) = Inr vss"
    and "bm = \<lparr> bm_verts = concat vss,
             bm_faces = trunk_quads (nat (verts_per_ring p)) (nat (rings p)) \<rparr>"
    by (auto simp: build_log_bmesh_eq [OF r n] bind_err_Inr_iff)
  with ob sc show ?thesis by (simp add: shade_smooth_def bm_to_mesh_def)
qed

lemma generate_clean:
  assumes "runs_clean p"
  shows "\<exists>ob. generate_proc_log noise name p location sc = (Inr ob, sc @ [ob])"
proof -
  obtain vss where "collect_err (ring_points noise p) (py_range (rings p + 1)) = Inr vss"
    using all_rings_ok [OF assms] by blast
  moreover have "0 \<le> rings p" "3 \<le> verts_per_ring p"
    using assms by (simp_all add: runs_clean_def setup_clean_def)
  ultimately have "\<exists>bm. build_log_bmesh noise p = Inr bm"
    by (simp add: build_log_bmesh_eq)
  then show ?thesis by (auto simp: generate_Inr_iff)
qed

lemma trunk_quads_length: "length (trunk_quads n r) = r * n"
  unfolding trunk_quads_def
  by (subst concat_uniform_length [where n = n]) auto

lemma trunk_quads_nth: "i < r \<Longrightarrow> j < n \<Longrightarrow> trunk_quads n r ! (i * n + j) = quad n i j"
  unfolding trunk_quads_def
  by (subst concat_uniform_nth [where n = n]) auto

lemma default_runs_clean: "runs_clean default_params"
  by (simp add: runs_clean_def setup_clean_def default_params_def upper_def upper_char_def)

text \<open>
  Every trunk mesh that \<^verbatim>\<open>generate_proc_log\<close> returns for \<open>rings \<ge> 1\<close> and
  \<open>verts_per_ring \<ge> 3\<close> has \<open>(rings + 1) * verts_per_ring\<close> vertices and
  \<open>rings * verts_per_ring\<close> faces; the face of ring pair \<open>(i, i + 1)\<close> at angular index
  \<open>j\<close> is the quad \<open>[A[j], A[(j+1) mod n], B[(j+1) mod n], B[j]]\<close>, wrapping from
  \<open>j = n - 1\<close> to 0, where the vertex at index \<open>i * n + j\<close> is sample \<open>j\<close> of ring \<open>i\<close>.
\<close>

lemma returned_trunk_topology:
  assumes "1 \<le> rings p" and "3 \<le> verts_per_ring p"
    and "generate_proc_log noise name p location sc = (Inr ob, sc')"
  shows "length (vertices (obj_data ob)) = (nat (rings p) + 1) * nat (verts_per_ring p) \<and>
         length (polygons (obj_data ob)) = nat (rings p) * nat (verts_per_ring p) \<and>
         (\<forall>i < nat (rings p). \<forall>j < nat (verts_per_ring p).
            polygons (obj_data ob) ! (i * nat (verts_per_ring p) + j) =
              quad (nat (verts_per_ring p)) i j) \<and>
         (\<forall>i \<le> nat (rings p). \<forall>j < nat (verts_per_ring p).
            ring_point noise p i j =
              Inr (vertices (obj_data ob) ! (i * nat (verts_per_ring p) + j)))"
proof -
  let ?n = "nat (verts_per_ring p)" and ?r = "nat (rings p)"
  have r: "0 \<le> rings p" using assms(1) by simp
  from generate_trunk [OF assms(3) r assms(2)] obtain vss where
    vss: "collect_err (ring_points noise p) (py_range (rings p + 1)) = Inr vss"
    and vs: "vertices (obj_data ob) = concat vss"
    and fs: "polygons (obj_data ob) = trunk_quads ?n ?r"
    by blast
  have len: "length vss = ?r + 1"
    using collect_err_length [OF vss] r by (simp add: py_range_def nat_add_distrib)
  have uni: "\<forall>vs \<in> set vss. length vs = ?n" by (rule rings_uniform [OF vss])
  have "length (vertices (obj_data ob)) = (?r + 1) * ?n"
    using concat_uniform_length [OF uni] len vs by simp
  moreover have "length (polygons (obj_data ob)) = ?r * ?n"
    by (simp add: fs trunk_quads_length)
  moreover have "\<forall>i < ?r. \<forall>j < ?n. polygons (obj_data ob) ! (i * ?n + j) = quad ?n i j"
    by (simp add: fs trunk_quads_nth)
  moreover have "\<forall>i \<le> ?r. \<forall>j < ?n.
      ring_point noise p i j = Inr (vertices (obj_data ob) ! (i * ?n + j))"
  proof (intro allI impI)
    fix i j assume i: "i \<le> ?r" and j: "j < ?n"
    have "ring_point noise p i j = Inr (vss ! i ! j)"
      by (rule ring_point_of_collect [OF vss]) (use i j r in simp_all)
    moreover have "concat vss ! (i * ?n + j) = vss ! i ! j"
      by (rule concat_uniform_nth [OF uni]) (use i j len in simp_all)
    ultimately show "ring_point noise p i j = Inr (vertices (obj_data ob) ! (i * ?n + j))"
      by (simp add: vs)
  qed
  ultimately show ?thesis by blast
qed

lemma default_trunk_topology:
  "1 \<le> rings default_params \<and> 3 \<le> verts_per_ring default_params \<and>
   \<not> isl (fst (generate_proc_log zero_noise ''Log'' default_params (0, 0, 0) [])) \<and>
   length (vertices (obj_data (projr (fst
     (generate_proc_log zero_noise ''Log'' default_params (0, 0, 0) []))))) = 2480 \<and>
   length (polygons (obj_data (projr (fst
     (generate_proc_log zero_noise ''Log'' default_params (0, 0, 0) []))))) = 2400 \<and>
   polygons (obj_data (projr (fst
     (generate_proc_log zero_noise ''Log'' default_params (0, 0, 0) [])))) ! (2 * 80 + 79)
     = [239, 160, 240, 319]"
proof -
  obtain ob where
    gen: "generate_proc_log zero_noise ''Log'' default_params (0, 0, 0) [] = (Inr ob, [] @ [ob])"
    using generate_clean [OF default_runs_clean] by blast
  have r: "1 \<le> rings default_params" and n: "3 \<le> verts_per_ring default_params"
    by (simp_all add: default_params_def)
  have rn: "nat (rings default_params) = 30" "nat (verts_per_ring default_params) = 80"
    by (simp_all add: default_params_def)
  note topo = returned_trunk_topology [OF r n gen, unfolded rn]
  from topo have len: "length (vertices (obj_data ob)) = 2480"
    "length (polygons (obj_data ob)) = 2400"
    by simp_all
  from topo have "\<forall>i < 30. \<forall>j < 80. polygons (obj_data ob) ! (i * 80 + j) = quad 80 i j"
    by blast
  moreover have "(2::nat) < 30" "(79::nat) < 80" by simp_all
  ultimately have "polygons (obj_data ob) ! (2 * 80 + 79) = quad 80 2 79" by blast
  with len show ?thesis using r n by (simp add: gen quad_def)
qed

section \<open>The claims\<close>

subsection \<open>A ring that cannot be built\<close>

lemma py_range_pos: "1 \<le> k \<Longrightarrow> py_range k = 0 # [1..<nat k]"
  by (simp add: py_range_def upt_conv_Cons)

lemma groove_zero_vertex:
  assumes "groove_count p = 0" and "verts_per_ring p \<noteq> 0"
  shows "ring_vertex noise p fr j = Inl ZeroDivisionError"
  using assms
  by (simp add: ring_vertex_def local_point_def sample_radii_def groove_term_def py_truediv_def)

lemma groove_zero_ring:
  assumes "groove_count p = 0" and "1 \<le> verts_per_ring p"
  shows "ring_points noise p 0 =
     (case ring_setup p 0 of Inl e \<Rightarrow> Inl e | Inr fr \<Rightarrow> Inl ZeroDivisionError)"
proof (cases "ring_setup p 0")
  case (Inl e)
  then show ?thesis by (simp add: ring_points_def)
next
  case (Inr fr)
  have "ring_vertex noise p fr 0 = Inl ZeroDivisionError"
    by (rule groove_zero_vertex) (use assms in simp_all)
  then show ?thesis
    by (simp add: ring_points_def Inr py_range_pos [OF assms(2)])
qed

lemma first_ring_fails:
  assumes "ring_points noise p 0 = Inl e" and "0 \<le> rings p"
  shows "build_log_bmesh noise p = Inl e"
proof -
  have "py_range (rings p + 1) = 0 # [1..<nat (rings p + 1)]"
    by (rule py_range_pos) (use assms(2) in simp)
  then show ?thesis
    by (simp add: build_log_bmesh_def build_rings_eq assms(1))
qed

lemma wide_ellipse_clean: "runs_clean wide_ellipse_params"
  by (simp add: runs_clean_def setup_clean_def wide_ellipse_params_def default_params_def
      upper_def upper_char_def)

text \<open>
  Claim C2 asks that \<open>groove_count = 0\<close> raise no division error. The generator has no
  such guard: line 287 divides by \<open>groove_count\<close> for the first vertex of the first ring.
  With \<open>groove_count = 0\<close>, at least one ring and at least one vertex per ring, every call
  ends in an exception, and that exception is \<^verbatim>\<open>ZeroDivisionError\<close> whenever the ring
  set-up itself raises nothing; the linked object keeps its empty mesh.
\<close>

theorem groove_count_zero_raises:
  assumes "groove_count p = 0" and "1 \<le> rings p" and "1 \<le> verts_per_ring p"
  shows "\<exists>e. generate_proc_log noise name p location sc =
           (Inl e, sc @ [\<lparr> obj_name = name, obj_location = location, obj_data = mesh_new \<rparr>]) \<and>
           (setup_clean p \<longrightarrow> e = ZeroDivisionError)"
proof (cases "ring_setup p 0")
  case (Inl e)
  then have "ring_points noise p 0 = Inl e"
    using groove_zero_ring [OF assms(1,3)] by simp
  then have "build_log_bmesh noise p = Inl e"
    by (rule first_ring_fails) (use assms(2) in simp)
  moreover have "\<not> setup_clean p"
    using ring_setup_ok [of p 0] Inl by auto
  ultimately show ?thesis by (simp add: generate_Inl_iff)
next
  case (Inr fr)
  then have "ring_points noise p 0 = Inl ZeroDivisionError"
    using groove_zero_ring [OF assms(1,3)] by simp
  then have "build_log_bmesh noise p = Inl ZeroDivisionError"
    by (rule first_ring_fails) (use assms(2) in simp)
  then show ?thesis by (simp add: generate_Inl_iff)
qed

theorem groove_count_zero_raises_witness:
  "groove_count groove_free_params = 0 \<and> in_documented_ranges groove_free_params \<and>
   generate_proc_log zero_noise ''Log'' groove_free_params (0, 0, 0) [] =
     (Inl ZeroDivisionError,
      [\<lparr> obj_name = ''Log'', obj_location = (0, 0, 0), obj_data = mesh_new \<rparr>])"
proof -
  have g: "groove_count groove_free_params = 0" and r: "1 \<le> rings groove_free_params"
    and n: "1 \<le> verts_per_ring groove_free_params"
    by (simp_all add: groove_free_params_def default_params_def)
  have c: "setup_clean groove_free_params"
    by (simp add: setup_clean_def groove_free_params_def default_params_def
        upper_def upper_char_def)
  have d: "in_documented_ranges groove_free_params"
    by (simp add: in_documented_ranges_def groove_free_params_def default_params_def)
  from groove_count_zero_raises [OF g r n, of zero_noise "''Log''" "(0, 0, 0)" "[]"] c g d
  show ?thesis by auto
qed

lemma groove_free_build:
  "build_log_bmesh noise groove_free_params = Inl ZeroDivisionError"
proof -
  have c: "setup_clean groove_free_params"
    by (simp add: setup_clean_def groove_free_params_def default_params_def
        upper_def upper_char_def)
  obtain fr where fr: "ring_setup groove_free_params 0 = Inr fr"
    using ring_setup_ok [OF c] by blast
  have "ring_points noise groove_free_params 0 =
      (case ring_setup groove_free_params 0 of Inl e \<Rightarrow> Inl e | Inr fr \<Rightarrow> Inl ZeroDivisionError)"
    by (rule groove_zero_ring) (simp_all add: groove_free_params_def default_params_def)
  then have "ring_points noise groove_free_params 0 = Inl ZeroDivisionError"
    by (simp add: fr)
  then show ?thesis
    by (rule first_ring_fails) (simp add: groove_free_params_def default_params_def)
qed

text \<open>
  Claim C1 says that every valid record yields a trunk of \<open>(rings + 1) * verts_per_ring\<close>
  vertices and \<open>rings * verts_per_ring\<close> quads. The editor defaults with
  \<open>groove_count = 0\<close> are inside every documented range, with 30 rings and 80 vertices per
  ring, and the call ends in \<^verbatim>\<open>ZeroDivisionError\<close> (line 287) for every noise function:
  the linked mesh has no vertex where the claim counts 2480. This is the missing guard of
  claim C2; every trunk that is returned has the topology of the claim
  (\<open>returned_trunk_topology\<close>).
\<close>

theorem valid_record_without_trunk:
  "in_documented_ranges groove_free_params \<and>
   1 \<le> rings groove_free_params \<and> 3 \<le> verts_per_ring groove_free_params \<and>
   generate_proc_log noise name groove_free_params location sc =
     (Inl ZeroDivisionError,
      sc @ [\<lparr> obj_name = name, obj_location = location, obj_data = mesh_new \<rparr>]) \<and>
   length (vertices mesh_new) = 0 \<and>
   (nat (rings groove_free_params) + 1) * nat (verts_per_ring groove_free_params) = 2480"
proof -
  have "in_documented_ranges groove_free_params"
    by (simp add: in_documented_ranges_def groove_free_params_def default_params_def)
  moreover have "generate_proc_log noise name groove_free_params location sc =
     (Inl ZeroDivisionError,
      sc @ [\<lparr> obj_name = name, obj_location = location, obj_data = mesh_new \<rparr>])"
    by (simp add: generate_Inl_iff groove_free_build)
  ultimately show ?thesis
    by (simp add: mesh_new_def groove_free_params_def default_params_def)
qed

text \<open>
  Claim C3 says that parameters outside the documented ranges fail validation before any
  geometry is built. The counterexample: an ellipse ratio of 7 is outside the documented
  range, and the call returns the full mesh of 2480 vertices and 2400 faces.
\<close>

theorem range_validation_counterexample:
  "\<not> in_documented_ranges wide_ellipse_params \<and>
   \<not> isl (fst (generate_proc_log zero_noise ''Log'' wide_ellipse_params (0, 0, 0) [])) \<and>
   length (vertices (obj_data (projr (fst
     (generate_proc_log zero_noise ''Log'' wide_ellipse_params (0, 0, 0) []))))) = 2480 \<and>
   length (polygons (obj_data (projr (fst
     (generate_proc_log zero_noise ''Log'' wide_ellipse_params (0, 0, 0) []))))) = 2400"
proof -
  obtain ob where
    gen: "generate_proc_log zero_noise ''Log'' wide_ellipse_params (0, 0, 0) [] = (Inr ob, [] @ [ob])"
    using generate_clean [OF wide_ellipse_clean] by blast
  have r: "0 \<le> rings wide_ellipse_params" and n: "3 \<le> verts_per_ring wide_ellipse_params"
    by (simp_all add: wide_ellipse_params_def default_params_def)
  from generate_trunk [OF gen r n] obtain vss where
    vss: "collect_err (ring_points zero_noise wide_ellipse_params)
            (py_range (rings wide_ellipse_params + 1)) = Inr vss"
    and vs: "vertices (obj_data ob) = concat vss"
    and fs: "polygons (obj_data ob) =
        trunk_quads (nat (verts_per_ring wide_ellipse_params)) (nat (rings wide_ellipse_params))"
    by blast
  have "length vss = 31"
    using collect_err_length [OF vss]
    by (simp add: py_range_def wide_ellipse_params_def default_params_def)
  moreover have "\<forall>vs \<in> set vss. length vs = 80"
    using rings_uniform [OF vss] by (simp add: wide_ellipse_params_def default_params_def)
  ultimately have "length (vertices (obj_data ob)) = 2480"
    using concat_uniform_length [of vss 80] vs by simp
  moreover have "length (polygons (obj_data ob)) = 2400"
    by (simp add: fs trunk_quads_length wide_ellipse_params_def default_params_def)
  moreover have "\<not> in_documented_ranges wide_ellipse_params"
    by (simp add: in_documented_ranges_def wide_ellipse_params_def default_params_def)
  ultimately show ?thesis by (simp add: gen)
qed

lemma generate_full:
  assumes "runs_clean p"
  shows "\<exists>ob. generate_proc_log noise name p location sc = (Inr ob, sc @ [ob]) \<and>
           length (vertices (obj_data ob)) = (nat (rings p) + 1) * nat (verts_per_ring p) \<and>
           polygons (obj_data ob) = trunk_quads (nat (verts_per_ring p)) (nat (rings p))"
proof -
  obtain ob where
    gen: "generate_proc_log noise name p location sc = (Inr ob, sc @ [ob])"
    using generate_clean [OF assms] by blast
  have r: "1 \<le> rings p" and n: "3 \<le> verts_per_ring p"
    using assms by (simp_all add: runs_clean_def setup_clean_def)
  have r0: "0 \<le> rings p" using r by simp
  from returned_trunk_topology [OF r n gen]
  have "length (vertices (obj_data ob)) = (nat (rings p) + 1) * nat (verts_per_ring p)"
    by blast
  moreover from generate_trunk [OF gen r0 n]
  have "polygons (obj_data ob) = trunk_quads (nat (verts_per_ring p)) (nat (rings p))"
    by blast
  ultimately show ?thesis using gen by blast
qed

lemma wide_ellipse_sized: "float_sized wide_ellipse_params"
  by (simp add: float_sized_def wide_ellipse_params_def default_params_def)

text \<open>
  Claim C3 as amended. The generator validates nothing. A record of finite floats, with
  ints that convert to float (\<open>float_sized\<close>), that meets the run-time conditions
  \<open>runs_clean\<close> is generated in full, \<open>(rings + 1) * verts_per_ring\<close> vertices and the
  \<open>rings * verts_per_ring\<close> quads of the trunk, whatever the documented ranges say; and
  whenever the call raises, the exception comes before \<^verbatim>\<open>bm.to_mesh\<close>, so that the object
  linked to the scene has a mesh with no vertex and no face.
\<close>

theorem generation_failure_modes:
  "(runs_clean p \<and> float_sized p \<longrightarrow>
      (\<exists>ob. generate_proc_log noise name p location sc = (Inr ob, sc @ [ob]) \<and>
         length (vertices (obj_data ob)) = (nat (rings p) + 1) * nat (verts_per_ring p) \<and>
         polygons (obj_data ob) = trunk_quads (nat (verts_per_ring p)) (nat (rings p)))) \<and>
   (\<forall>e sc'. generate_proc_log noise name p location sc = (Inl e, sc') \<longrightarrow>
      sc' = sc @ [\<lparr> obj_name = name, obj_location = location, obj_data = mesh_new \<rparr>])"
proof (intro conjI allI impI)
  assume "runs_clean p \<and> float_sized p"
  then have "runs_clean p" by simp
  then show "\<exists>ob. generate_proc_log noise name p location sc = (Inr ob, sc @ [ob]) \<and>
         length (vertices (obj_data ob)) = (nat (rings p) + 1) * nat (verts_per_ring p) \<and>
         polygons (obj_data ob) = trunk_quads (nat (verts_per_ring p)) (nat (rings p))"
    by (rule generate_full)
next
  fix e sc' assume "generate_proc_log noise name p location sc = (Inl e, sc')"
  then show "sc' = sc @ [\<lparr> obj_name = name, obj_location = location, obj_data = mesh_new \<rparr>]"
    by (simp add: generate_Inl_iff)
qed

theorem generation_failure_modes_witness:
  "\<not> in_documented_ranges wide_ellipse_params \<and>
   runs_clean wide_ellipse_params \<and> float_sized wide_ellipse_params \<and>
   \<not> isl (fst (generate_proc_log zero_noise ''Log'' wide_ellipse_params (0, 0, 0) [])) \<and>
   length (vertices (obj_data (projr (fst
     (generate_proc_log zero_noise ''Log'' wide_ellipse_params (0, 0, 0) []))))) = 2480 \<and>
   polygons (obj_data (projr (fst
     (generate_proc_log zero_noise ''Log'' wide_ellipse_params (0, 0, 0) [])))) =
     trunk_quads 80 30 \<and>
   length (trunk_quads 80 30) = 2400 \<and>
   generate_proc_log zero_noise ''Log'' ringless_params (0, 0, 0) [] =
     (Inl ZeroDivisionError,
      [\<lparr> obj_name = ''Log'', obj_location = (0, 0, 0), obj_data = mesh_new \<rparr>]) \<and>
   vertices mesh_new = [] \<and> polygons mesh_new = []"
proof -
  have rn: "nat (rings wide_ellipse_params) = 30" "nat (verts_per_ring wide_ellipse_params) = 80"
    by (simp_all add: wide_ellipse_params_def default_params_def)
  note fm = generation_failure_modes [of wide_ellipse_params zero_noise "''Log''" "(0, 0, 0)" "[]"]
  from fm wide_ellipse_clean wide_ellipse_sized obtain ob where
    gen: "generate_proc_log zero_noise ''Log'' wide_ellipse_params (0, 0, 0) [] = (Inr ob, [] @ [ob])"
    and vs: "length (vertices (obj_data ob)) =
        (nat (rings wide_ellipse_params) + 1) * nat (verts_per_ring wide_ellipse_params)"
    and fs: "polygons (obj_data ob) =
        trunk_quads (nat (verts_per_ring wide_ellipse_params)) (nat (rings wide_ellipse_params))"
    by blast
  have a: "length (vertices (obj_data ob)) = 2480" "polygons (obj_data ob) = trunk_quads 80 30"
    using vs fs unfolding rn by simp_all
  have "ring_setup ringless_params 0 = Inl ZeroDivisionError"
    by (simp add: ring_setup_def py_truediv_def ringless_params_def default_params_def)
  then have "ring_points zero_noise ringless_params 0 = Inl ZeroDivisionError"
    by (simp add: ring_points_def)
  then have "build_log_bmesh zero_noise ringless_params = Inl ZeroDivisionError"
    by (rule first_ring_fails) (simp add: ringless_params_def default_params_def)
  then obtain sc' where
    b: "generate_proc_log zero_noise ''Log'' ringless_params (0, 0, 0) [] = (Inl ZeroDivisionError, sc')"
    by (simp add: generate_proc_log_def)
  from generation_failure_modes [of ringless_params zero_noise "''Log''" "(0, 0, 0)" "[]"] b
  have "sc' = [] @ [\<lparr> obj_name = ''Log'', obj_location = (0, 0, 0), obj_data = mesh_new \<rparr>]"
    by blast
  moreover have "\<not> in_documented_ranges wide_ellipse_params"
    by (simp add: in_documented_ranges_def wide_ellipse_params_def default_params_def)
  ultimately show ?thesis
    using a b wide_ellipse_clean wide_ellipse_sized
    by (simp add: gen mesh_new_def trunk_quads_length)
qed

subsection \<open>Vertices, rotation and translation\<close>

lemma generate_vertex:
  assumes gen: "generate_proc_log noise name p location sc = (Inr ob, sc')"
    and r: "0 \<le> rings p" and n: "3 \<le> verts_per_ring p"
    and i: "i \<le> nat (rings p)" and j: "j < nat (verts_per_ring p)"
  shows "ring_point noise p i j =
           Inr (vertices (obj_data ob) ! (i * nat (verts_per_ring p) + j))"
proof -
  from generate_trunk [OF gen r n] obtain vss where
    vss: "collect_err (ring_points noise p) (py_range (rings p + 1)) = Inr vss"
    and vs: "vertices (obj_data ob) = concat vss"
    by blast
  have len: "length vss = nat (rings p) + 1"
    using collect_err_length [OF vss] r by (simp add: py_range_def nat_add_distrib)
  have uni: "\<forall>vs \<in> set vss. length vs = nat (verts_per_ring p)"
    by (rule rings_uniform [OF vss])
  have "ring_point noise p i j = Inr (vss ! i ! j)"
    by (rule ring_point_of_collect [OF vss]) (use i j r in simp_all)
  moreover have "concat vss ! (i * nat (verts_per_ring p) + j) = vss ! i ! j"
    by (rule concat_uniform_nth [OF uni]) (use i j len in simp_all)
  ultimately show ?thesis by (simp add: vs)
qed

lemma rotation_as_claimed:
  assumes "Matrix_Rotation (radians d * t) axis = Inr rot"
  shows "matmul rot v = claimed_rotation axis (d * t) v"
proof -
  have a: "radians d * t = d * t * pi / 180" by (simp add: radians_def)
  obtain x y z where v: "v = (x, y, z)" by (cases v) auto
  show ?thesis
    using assms unfolding a
    by (auto simp: Matrix_Rotation_def matmul_def vdot_def claimed_rotation_def v Let_def
        split: if_splits)
qed

lemma vadd_assoc: "vadd a (vadd b c) = vadd (vadd a b) c"
  by (cases a, cases b, cases c) (simp add: vadd_def)

lemma vadd_left_cancel: "vadd a b = vadd a c \<Longrightarrow> b = c"
  by (cases a, cases b, cases c) (simp add: vadd_def)

lemma ring_point_composed:
  assumes "ring_point noise p i j = Inr w"
  shows "\<exists>fr lp. ring_setup p i = Inr fr \<and> local_point noise p fr j = Inr lp \<and>
           rf_t fr = real i / real_of_int (rings p) \<and>
           w = amended_world_point p (rf_t fr) lp"
proof -
  from assms obtain fr lp where fr: "ring_setup p i = Inr fr"
    and lp: "local_point noise p fr j = Inr lp"
    and w: "w = vadd (matmul (rf_rot fr) lp) (rf_center fr)"
    unfolding ring_point_def ring_vertex_def bind_err_Inr_iff by auto
  from fr obtain t radius rr rot where
    t: "py_truediv (real i) (real_of_int (rings p)) = Inr t"
    and rot: "Matrix_Rotation (radians (twist_angle p) * t) (upper (twist_direction p)) = Inr rot"
    and frv: "fr = \<lparr> rf_t = t, rf_rx = fst (flange_bump p i rr), rf_ry = snd (flange_bump p i rr),
               rf_center = vadd (centerline p t) (eccentric_offset p), rf_rot = rot \<rparr>"
    unfolding ring_setup_def Let_def bind_err_Inr_iff by blast
  have tt: "t = real i / real_of_int (rings p)"
    using t by (simp add: py_truediv_def split: if_splits)
  have "w = vadd (claimed_rotation (upper (twist_direction p)) (twist_angle p * t) lp)
               (vadd (centerline p t) (eccentric_offset p))"
    by (simp add: w frv rotation_as_claimed [OF rot])
  also have "\<dots> = amended_world_point p t lp"
    by (simp add: vadd_assoc amended_world_point_def claimed_centerline_def centerline_def
        eccentric_degrees_def eccentric_offset_def radians_def Let_def)
  finally have "w = amended_world_point p (rf_t fr) lp" by (simp add: frv)
  moreover have "rf_t fr = real i / real_of_int (rings p)" by (simp add: frv tt)
  ultimately show ?thesis using fr lp by blast
qed

lemma cos_degree_differs: "cos (pi / 180) \<noteq> cos (1::real)"
proof
  assume "cos (pi / 180) = cos (1::real)"
  moreover have "0 \<le> pi / 180" "pi / 180 \<le> pi" "(0::real) \<le> 1" "1 \<le> pi"
    using pi_ge_two by simp_all
  ultimately have "pi / 180 = 1" by (rule cos_inj_pi [rotated -1])
  then show False using pi_less_4 by simp
qed

lemma tilted_runs_clean: "runs_clean tilted_params"
  by (simp add: runs_clean_def setup_clean_def tilted_params_def default_params_def
      upper_def upper_char_def)

lemma claimed_offset_differs: "eccentric_degrees tilted_params \<noteq> claimed_eccentric tilted_params"
  using cos_degree_differs
  by (simp add: eccentric_degrees_def claimed_eccentric_def tilted_params_def default_params_def)

text \<open>
  Claim C5 writes the eccentric offset as
  \<open>(eccentricity_offset cos(eccentricity_angle), eccentricity_offset sin(eccentricity_angle), 0)\<close>.
  The generator converts the angle from degrees to radians first (line 273). The
  counterexample: with \<open>eccentricity_angle = 1\<close> the first vertex of the mesh is not the
  world point of the claim.
\<close>

theorem eccentric_angle_counterexample:
  "\<not> isl (fst (generate_proc_log zero_noise ''Log'' tilted_params (0, 0, 0) [])) \<and>
   \<not> isl (ring_setup tilted_params 0) \<and>
   \<not> isl (local_point zero_noise tilted_params (projr (ring_setup tilted_params 0)) 0) \<and>
   vertices (obj_data (projr (fst
       (generate_proc_log zero_noise ''Log'' tilted_params (0, 0, 0) [])))) ! 0
     \<noteq> claimed_world_point tilted_params 0
         (projr (local_point zero_noise tilted_params (projr (ring_setup tilted_params 0)) 0))"
proof -
  obtain ob where
    gen: "generate_proc_log zero_noise ''Log'' tilted_params (0, 0, 0) [] = (Inr ob, [] @ [ob])"
    using generate_clean [OF tilted_runs_clean] by blast
  have "ring_point zero_noise tilted_params 0 0 =
      Inr (vertices (obj_data ob) ! (0 * nat (verts_per_ring tilted_params) + 0))"
    by (rule generate_vertex [OF gen]) (simp_all add: tilted_params_def default_params_def)
  then have "ring_point zero_noise tilted_params 0 0 = Inr (vertices (obj_data ob) ! 0)"
    by simp
  from ring_point_composed [OF this] obtain fr lp where
    fr: "ring_setup tilted_params 0 = Inr fr"
    and lp: "local_point zero_noise tilted_params fr 0 = Inr lp"
    and t: "rf_t fr = real 0 / real_of_int (rings tilted_params)"
    and v: "vertices (obj_data ob) ! 0 = amended_world_point tilted_params (rf_t fr) lp"
    by blast
  have t0: "rf_t fr = 0" using t by simp
  have "amended_world_point tilted_params 0 lp \<noteq> claimed_world_point tilted_params 0 lp"
    unfolding amended_world_point_def claimed_world_point_def
    using claimed_offset_differs vadd_left_cancel by blast
  then show ?thesis by (simp add: gen fr lp v t0)
qed

text \<open>
  Claim C5 as amended. Vertex \<open>j\<close> of ring \<open>i\<close> is the local point of that sample rotated by
  \<open>twist_angle * t\<close> degrees about the twist axis, \<open>t = i / rings\<close>, plus the centerline
  point at \<open>t\<close>, plus the eccentric offset whose angle \<open>eccentricity_angle\<close> is in degrees;
  the rotation is applied before the translation is added.
\<close>

theorem world_point_composition:
  assumes "1 \<le> rings p" and "3 \<le> verts_per_ring p"
    and "generate_proc_log noise name p location sc = (Inr ob, sc')"
    and "i \<le> nat (rings p)" and "j < nat (verts_per_ring p)"
  shows "\<exists>fr lp. ring_setup p i = Inr fr \<and> local_point noise p fr j = Inr lp \<and>
           rf_t fr = real i / real_of_int (rings p) \<and>
           vertices (obj_data ob) ! (i * nat (verts_per_ring p) + j) =
             amended_world_point p (rf_t fr) lp"
proof -
  have "ring_point noise p i j =
      Inr (vertices (obj_data ob) ! (i * nat (verts_per_ring p) + j))"
    by (rule generate_vertex [OF assms(3) _ assms(2,4,5)]) (use assms(1) in simp)
  then show ?thesis by (rule ring_point_composed)
qed

lemma twisted_runs_clean: "runs_clean twisted_params"
  by (simp add: runs_clean_def setup_clean_def twisted_params_def default_params_def
      upper_def upper_char_def)

lemma twisted_mid_ring:
  "\<not> isl (ring_setup twisted_params 15)"
  "rf_rx (projr (ring_setup twisted_params 15)) = 99/200"
  "rf_ry (projr (ring_setup twisted_params 15)) = 9/22"
  by (simp_all add: ring_setup_def py_truediv_def taper_radius_def ellipse_radii_def
      flange_bump_def Matrix_Rotation_def upper_def upper_char_def twisted_params_def
      default_params_def Let_def power2_eq_square)

lemma twisted_local_point:
  "local_point zero_noise twisted_params fr 0 = Inr (rf_rx fr, 0, 0)"
proof -
  have g: "\<And>theta. groove_term twisted_params theta = Inr 0"
    by (rule groove_depth_zero) (simp_all add: twisted_params_def default_params_def)
  have v: "py_truediv (2 * pi * real (0::nat)) (real_of_int (verts_per_ring twisted_params)) = Inr 0"
    by (simp add: py_truediv_def twisted_params_def default_params_def)
  show ?thesis
    unfolding local_point_def sample_radii_def v bind_err_simps g
    by (simp add: rough_term_def zero_noise_def Let_def)
qed

lemma twisted_world_point:
  "amended_world_point twisted_params (1/2) (99/200, 0, 0) =
     (99 * sqrt 2 / 400 + cos (pi / 180) / 2,
      99 * sqrt 2 / 400 + 3/10 + sin (pi / 180) / 2,
      5/2)"
proof -
  have a: "(45::real) * pi / 180 = pi / 4" by simp
  show ?thesis
    unfolding amended_world_point_def claimed_rotation_def claimed_centerline_def
      eccentric_degrees_def
    by (simp add: twisted_params_def default_params_def upper_def upper_char_def vadd_def
        a cos_45 sin_45 Let_def)
qed

theorem world_point_composition_witness:
  "1 \<le> rings twisted_params \<and> 3 \<le> verts_per_ring twisted_params \<and>
   \<not> isl (fst (generate_proc_log zero_noise ''Log'' twisted_params (0, 0, 0) [])) \<and>
   (15::nat) \<le> nat (rings twisted_params) \<and> (0::nat) < nat (verts_per_ring twisted_params) \<and>
   \<not> isl (ring_setup twisted_params 15) \<and>
   local_point zero_noise twisted_params (projr (ring_setup twisted_params 15)) 0 =
     Inr (99/200, 0, 0) \<and>
   vertices (obj_data (projr (fst
       (generate_proc_log zero_noise ''Log'' twisted_params (0, 0, 0) [])))) ! 1200
     = (99 * sqrt 2 / 400 + cos (pi / 180) / 2,
        99 * sqrt 2 / 400 + 3/10 + sin (pi / 180) / 2,
        5/2)"
proof -
  obtain ob where
    gen: "generate_proc_log zero_noise ''Log'' twisted_params (0, 0, 0) [] = (Inr ob, [] @ [ob])"
    using generate_clean [OF twisted_runs_clean] by blast
  have r: "1 \<le> rings twisted_params" and n: "3 \<le> verts_per_ring twisted_params"
    and i: "(15::nat) \<le> nat (rings twisted_params)"
    and j: "(0::nat) < nat (verts_per_ring twisted_params)"
    by (simp_all add: twisted_params_def default_params_def)
  from world_point_composition [OF r n gen i j] obtain fr lp where
    fr: "ring_setup twisted_params 15 = Inr fr"
    and lp: "local_point zero_noise twisted_params fr 0 = Inr lp"
    and t: "rf_t fr = real 15 / real_of_int (rings twisted_params)"
    and v: "vertices (obj_data ob) ! (15 * nat (verts_per_ring twisted_params) + 0) =
        amended_world_point twisted_params (rf_t fr) lp"
    by blast
  have th: "rf_t fr = 1/2" using t by (simp add: twisted_params_def default_params_def)
  have ix: "15 * nat (verts_per_ring twisted_params) + 0 = 1200"
    by (simp add: twisted_params_def default_params_def)
  have rx: "rf_rx fr = 99/200" using twisted_mid_ring(2) by (simp add: fr)
  have "Inr lp = Inr (rf_rx fr, 0::real, 0::real)"
    using lp unfolding twisted_local_point by simp
  then have lpv: "lp = (99/200, 0, 0)" unfolding rx by simp
  have "vertices (obj_data ob) ! 1200 = amended_world_point twisted_params (1/2) (99/200, 0, 0)"
    using v unfolding th ix lpv .
  then have "vertices (obj_data ob) ! 1200 =
     (99 * sqrt 2 / 400 + cos (pi / 180) / 2,
      99 * sqrt 2 / 400 + 3/10 + sin (pi / 180) / 2,
      5/2)"
    by (simp only: twisted_world_point)
  then show ?thesis using r n i j lp lpv by (simp add: gen fr)
qed

subsection \<open>End caps\<close>

lemma make_cap_eq:
  assumes "3 \<le> length coords"
  shows "make_cap name coords flip sc =
     (let ob = \<lparr> obj_name = name, obj_location = (0, 0, 0),
                 obj_data = \<lparr> vertices = coords,
                   polygons = [if flip then rev [0..<length coords] else [0..<length coords]],
                   use_smooth = [False] \<rparr> \<rparr>
      in (Inr ob, sc @ [ob]))"
  using assms
  by (simp add: make_cap_def bm_faces_new_def bmesh_new_def bm_to_mesh_def Let_def)

text \<open>
  Claim C6. For a log generated with \<open>rings \<ge> 1\<close> and \<open>verts_per_ring \<ge> 3\<close>, each call of
  \<^verbatim>\<open>make_cap\<close> of the main loop returns a mesh with a single polygon over
  \<open>verts_per_ring\<close> vertices: the points of ring 0 for the start cap, wound in reverse
  angular order, and the points of the last ring for the end cap, wound in angular order.
\<close>

theorem cap_windings:
  assumes "1 \<le> rings p" and "3 \<le> verts_per_ring p"
    and "generate_proc_log noise name p location sc = (Inr log_obj, sc')"
  shows "\<exists>cap_start cap_end.
      make_cap name1 (start_coords log_obj (verts_per_ring p)) True sc1 =
        (Inr cap_start, sc1 @ [cap_start]) \<and>
      make_cap name2 (end_coords log_obj (verts_per_ring p)) False sc2 =
        (Inr cap_end, sc2 @ [cap_end]) \<and>
      polygons (obj_data cap_start) = [rev [0..<nat (verts_per_ring p)]] \<and>
      polygons (obj_data cap_end) = [[0..<nat (verts_per_ring p)]] \<and>
      length (vertices (obj_data cap_start)) = nat (verts_per_ring p) \<and>
      length (vertices (obj_data cap_end)) = nat (verts_per_ring p) \<and>
      (\<forall>j < nat (verts_per_ring p).
         ring_point noise p 0 j = Inr (vertices (obj_data cap_start) ! j)) \<and>
      (\<forall>j < nat (verts_per_ring p).
         ring_point noise p (nat (rings p)) j = Inr (vertices (obj_data cap_end) ! j))"
proof -
  let ?n = "nat (verts_per_ring p)" and ?r = "nat (rings p)"
  let ?vs = "vertices (obj_data log_obj)"
  have r: "0 \<le> rings p" using assms(1) by simp
  have n3: "3 \<le> ?n" using assms(2) by simp
  from generate_trunk [OF assms(3) r assms(2)] obtain vss where
    vss: "collect_err (ring_points noise p) (py_range (rings p + 1)) = Inr vss"
    and vs: "?vs = concat vss"
    by blast
  have len: "length vss = ?r + 1"
    using collect_err_length [OF vss] r by (simp add: py_range_def nat_add_distrib)
  have uni: "\<forall>vs \<in> set vss. length vs = ?n" by (rule rings_uniform [OF vss])
  have total: "length ?vs = ?r * ?n + ?n"
    using concat_uniform_length [OF uni] len vs by simp
  have pt: "\<And>i j. i \<le> ?r \<Longrightarrow> j < ?n \<Longrightarrow> ring_point noise p i j = Inr (?vs ! (i * ?n + j))"
  proof -
    fix i j assume i: "i \<le> ?r" and j: "j < ?n"
    have "ring_point noise p i j = Inr (vss ! i ! j)"
      by (rule ring_point_of_collect [OF vss]) (use i j r in simp_all)
    moreover have "concat vss ! (i * ?n + j) = vss ! i ! j"
      by (rule concat_uniform_nth [OF uni]) (use i j len in simp_all)
    ultimately show "ring_point noise p i j = Inr (?vs ! (i * ?n + j))" by (simp add: vs)
  qed
  let ?sc = "start_coords log_obj (verts_per_ring p)"
  let ?ec = "end_coords log_obj (verts_per_ring p)"
  have sc: "?sc = take ?n ?vs"
    using assms(2) by (simp add: start_coords_def py_slice_to_def)
  have ec: "?ec = drop (?r * ?n) ?vs"
    using assms(2) total by (simp add: end_coords_def py_slice_from_def)
  have ls: "length ?sc = ?n" and le: "length ?ec = ?n"
    using total by (simp_all add: sc ec)
  define cap_start where "cap_start = \<lparr> obj_name = name1, obj_location = (0, 0, 0),
      obj_data = \<lparr> vertices = ?sc, polygons = [rev [0..<?n]], use_smooth = [False] \<rparr> \<rparr>"
  define cap_end where "cap_end = \<lparr> obj_name = name2, obj_location = (0, 0, 0),
      obj_data = \<lparr> vertices = ?ec, polygons = [[0..<?n]], use_smooth = [False] \<rparr> \<rparr>"
  have m1: "make_cap name1 ?sc True sc1 = (Inr cap_start, sc1 @ [cap_start])"
    using n3 ls by (simp add: make_cap_eq cap_start_def Let_def)
  have m2: "make_cap name2 ?ec False sc2 = (Inr cap_end, sc2 @ [cap_end])"
    using n3 le by (simp add: make_cap_eq cap_end_def Let_def)
  have p1: "\<forall>j < ?n. ring_point noise p 0 j = Inr (vertices (obj_data cap_start) ! j)"
    using pt [of 0] by (simp add: cap_start_def sc)
  have p2: "\<forall>j < ?n. ring_point noise p ?r j = Inr (vertices (obj_data cap_end) ! j)"
    using pt [of ?r] total by (simp add: cap_end_def ec)
  have "polygons (obj_data cap_start) = [rev [0..<?n]]"
    "polygons (obj_data cap_end) = [[0..<?n]]"
    "length (vertices (obj_data cap_start)) = ?n"
    "length (vertices (obj_data cap_end)) = ?n"
    using ls le by (simp_all add: cap_start_def cap_end_def)
  with m1 m2 p1 p2 show ?thesis by blast
qed

theorem cap_windings_witness:
  "1 \<le> rings default_params \<and> 3 \<le> verts_per_ring default_params \<and>
   \<not> isl (fst (generate_proc_log zero_noise ''Log'' default_params (0, 0, 0) [])) \<and>
   polygons (obj_data (projr (fst (make_cap ''Log_cap_start''
     (start_coords (projr (fst (generate_proc_log zero_noise ''Log'' default_params (0, 0, 0) [])))
        (verts_per_ring default_params)) True []))))
     = [rev [0..<80]] \<and>
   polygons (obj_data (projr (fst (make_cap ''Log_cap_end''
     (end_coords (projr (fst (generate_proc_log zero_noise ''Log'' default_params (0, 0, 0) [])))
        (verts_per_ring default_params)) False []))))
     = [[0..<80]]"
proof -
  obtain ob where
    gen: "generate_proc_log zero_noise ''Log'' default_params (0, 0, 0) [] = (Inr ob, [] @ [ob])"
    using generate_clean [OF default_runs_clean] by blast
  have r: "1 \<le> rings default_params" and n: "3 \<le> verts_per_ring default_params"
    by (simp_all add: default_params_def)
  have rn: "nat (verts_per_ring default_params) = 80"
    by (simp add: default_params_def)
  from cap_windings [OF r n gen, of "''Log_cap_start''" "[]" "''Log_cap_end''" "[]", unfolded rn]
  obtain cap_start cap_end where
    "make_cap ''Log_cap_start'' (start_coords ob (verts_per_ring default_params)) True [] =
        (Inr cap_start, [] @ [cap_start])"
    "make_cap ''Log_cap_end'' (end_coords ob (verts_per_ring default_params)) False [] =
        (Inr cap_end, [] @ [cap_end])"
    "polygons (obj_data cap_start) = [rev [0..<80]]"
    "polygons (obj_data cap_end) = [[0..<80]]"
    by blast
  then show ?thesis using r n by (simp add: gen)
qed

subsection \<open>Flange, roughness and the base of the centerline\<close>

text \<open>
  Claim C8. For \<open>flange_count > 0\<close>, ring \<open>i\<close> gets \<open>flange_width\<close> added to both radii
  exactly when \<open>i mod max(1, rings div flange_count) = 0\<close>; for \<open>flange_count = 0\<close> nothing
  is added. The radii before the bump are those of the ellipse step.
\<close>

theorem flange_step:
  assumes "ring_setup p i = Inr fr" and "0 \<le> flange_count p"
  shows "\<exists>radius rx ry.
      taper_radius p (real i / real_of_int (rings p)) = Inr radius \<and>
      ellipse_radii p (real i / real_of_int (rings p)) radius = Inr (rx, ry) \<and>
      rf_rx fr = rx + (if 0 < flange_count p \<and>
                          int i mod max 1 (rings p div flange_count p) = 0
                       then flange_width p else 0) \<and>
      rf_ry fr = ry + (if 0 < flange_count p \<and>
                          int i mod max 1 (rings p div flange_count p) = 0
                       then flange_width p else 0)"
proof -
  let ?t = "real i / real_of_int (rings p)"
  from assms(1) obtain t radius rr rot where
    t: "py_truediv (real i) (real_of_int (rings p)) = Inr t"
    and radius: "taper_radius p t = Inr radius"
    and rr: "ellipse_radii p t radius = Inr rr"
    and fr: "fr = \<lparr> rf_t = t, rf_rx = fst (flange_bump p i rr), rf_ry = snd (flange_bump p i rr),
               rf_center = vadd (centerline p t) (eccentric_offset p), rf_rot = rot \<rparr>"
    unfolding ring_setup_def Let_def bind_err_Inr_iff by blast
  have tt: "t = ?t" using t by (simp add: py_truediv_def split: if_splits)
  have "rf_rx fr = fst rr + (if 0 < flange_count p \<and>
                          int i mod max 1 (rings p div flange_count p) = 0
                       then flange_width p else 0)"
    and "rf_ry fr = snd rr + (if 0 < flange_count p \<and>
                          int i mod max 1 (rings p div flange_count p) = 0
                       then flange_width p else 0)"
    using assms(2) by (auto simp: fr flange_bump_def)
  moreover have "ellipse_radii p ?t radius = Inr (fst rr, snd rr)"
    using rr tt by simp
  ultimately show ?thesis using radius tt by blast
qed

theorem flange_step_witness:
  "0 \<le> flange_count default_params \<and>
   \<not> isl (ring_setup default_params 10) \<and>
   rf_rx (projr (ring_setup default_params 10)) = 77/150 + 5/100 \<and>
   rf_ry (projr (ring_setup default_params 10)) = 14/33 + 5/100 \<and>
   \<not> isl (ring_setup default_params 11) \<and>
   rf_rx (projr (ring_setup default_params 11)) =
     fst (projr (ellipse_radii default_params (11/30)
        (projr (taper_radius default_params (11/30)))))"
proof -
  have c: "setup_clean default_params"
    using default_runs_clean by (simp add: runs_clean_def)
  obtain fr where fr: "ring_setup default_params 10 = Inr fr"
    using ring_setup_ok [OF c] by blast
  obtain fr' where fr': "ring_setup default_params 11 = Inr fr'"
    using ring_setup_ok [OF c] by blast
  have f: "0 \<le> flange_count default_params" by (simp add: default_params_def)
  from flange_step [OF fr f] obtain radius rx ry where
    a: "taper_radius default_params (real 10 / real_of_int (rings default_params)) = Inr radius"
    "ellipse_radii default_params (real 10 / real_of_int (rings default_params)) radius = Inr (rx, ry)"
    "rf_rx fr = rx + (if 0 < flange_count default_params \<and>
        int 10 mod max 1 (rings default_params div flange_count default_params) = 0
        then flange_width default_params else 0)"
    "rf_ry fr = ry + (if 0 < flange_count default_params \<and>
        int 10 mod max 1 (rings default_params div flange_count default_params) = 0
        then flange_width default_params else 0)"
    by blast
  from flange_step [OF fr' f] obtain radius' rx' ry' where
    b: "taper_radius default_params (real 11 / real_of_int (rings default_params)) = Inr radius'"
    "ellipse_radii default_params (real 11 / real_of_int (rings default_params)) radius' = Inr (rx', ry')"
    "rf_rx fr' = rx' + (if 0 < flange_count default_params \<and>
        int 11 mod max 1 (rings default_params div flange_count default_params) = 0
        then flange_width default_params else 0)"
    by blast
  have "radius = 7/15"
    using a(1) by (simp add: taper_radius_def default_params_def power2_eq_square)
  then have "rx = 77/150" "ry = 14/33"
    using a(2) by (simp_all add: ellipse_radii_def py_truediv_def default_params_def)
  then have "rf_rx fr = 77/150 + 5/100" "rf_ry fr = 14/33 + 5/100"
    using a(3,4) by (simp_all add: default_params_def)
  moreover have "rf_rx fr' = rx'"
    using b(3) by (simp add: default_params_def)
  moreover have "rx' = fst (projr (ellipse_radii default_params (11/30)
        (projr (taper_radius default_params (11/30)))))"
    using b(1,2) by (simp add: default_params_def)
  ultimately show ?thesis using f by (simp add: fr fr')
qed

lemma grooveless_mid_ring:
  "\<not> isl (ring_setup grooveless_params 15)"
  "rf_rx (projr (ring_setup grooveless_params 15)) = 99/200"
  "rf_ry (projr (ring_setup grooveless_params 15)) = 9/22"
  by (simp_all add: ring_setup_def py_truediv_def taper_radius_def ellipse_radii_def
      flange_bump_def Matrix_Rotation_def upper_def upper_char_def grooveless_params_def
      default_params_def Let_def power2_eq_square)

lemma grooveless_sample:
  "sample_radii half_noise grooveless_params fr j =
     Inr (2 * pi * real j / 80, rf_rx fr + 1/20, rf_ry fr + 1/20)"
proof -
  have g: "\<And>theta. groove_term grooveless_params theta = Inr 0"
    by (rule groove_depth_zero) (simp_all add: grooveless_params_def default_params_def)
  have v: "py_truediv (2 * pi * real j) (real_of_int (verts_per_ring grooveless_params)) =
      Inr (2 * pi * real j / 80)"
    by (simp add: py_truediv_def grooveless_params_def default_params_def)
  show ?thesis
    unfolding sample_radii_def v bind_err_simps g
    by (simp add: rough_term_def half_noise_def grooveless_params_def default_params_def Let_def)
qed

text \<open>
  Claim C9 says that adding the same roughness value to both radii leaves the axis ratio
  \<open>rx / ry\<close> of the sample as it was. The counterexample: at ring 15, sample 20, with
  grooves of depth zero and a noise value of one half, the radii 99/200 and 9/22 become
  109/200 and 101/220, and the ratio changes.
\<close>

theorem roughness_ratio_counterexample:
  "\<not> isl (ring_setup grooveless_params 15) \<and>
   \<not> isl (sample_radii half_noise grooveless_params (projr (ring_setup grooveless_params 15)) 20) \<and>
   fst (snd (projr (sample_radii half_noise grooveless_params
                      (projr (ring_setup grooveless_params 15)) 20))) /
   snd (snd (projr (sample_radii half_noise grooveless_params
                      (projr (ring_setup grooveless_params 15)) 20)))
     \<noteq> rf_rx (projr (ring_setup grooveless_params 15)) /
        rf_ry (projr (ring_setup grooveless_params 15))"
  by (simp add: grooveless_sample grooveless_mid_ring)

text \<open>
  Claim C9 as amended. Both radii of a sample receive the same value
  \<open>noise(t noise_scale, theta noise_scale, 0) * bark_roughness_depth * bark_roughness_level\<close>
  (and the same groove term), so the difference \<open>rx - ry\<close> is unchanged; the ratio
  \<open>rx / ry\<close> is unchanged exactly when \<open>rx = ry\<close> or the value added is zero.
\<close>

theorem roughness_added_to_both:
  assumes "sample_radii noise p fr j = Inr (theta, r_x, r_y)"
  shows "\<exists>groove. groove_term p theta = Inr groove \<and>
     r_x = rf_rx fr + noise (rf_t fr * noise_scale p, theta * noise_scale p, 0)
                        * bark_roughness_depth p * bark_roughness_level p + groove \<and>
     r_y = rf_ry fr + noise (rf_t fr * noise_scale p, theta * noise_scale p, 0)
                        * bark_roughness_depth p * bark_roughness_level p + groove \<and>
     r_x - r_y = rf_rx fr - rf_ry fr \<and>
     (rf_ry fr \<noteq> 0 \<and> r_y \<noteq> 0 \<longrightarrow>
        (r_x / r_y = rf_rx fr / rf_ry fr \<longleftrightarrow> rf_rx fr = rf_ry fr \<or> r_x = rf_rx fr))"
proof -
  from assms obtain groove where g: "groove_term p theta = Inr groove"
    and x: "r_x = rf_rx fr + rough_term noise p (rf_t fr) theta + groove"
    and y: "r_y = rf_ry fr + rough_term noise p (rf_t fr) theta + groove"
    unfolding sample_radii_def Let_def bind_err_Inr_iff by auto
  define c where "c = rough_term noise p (rf_t fr) theta + groove"
  have xc: "r_x = rf_rx fr + c" and yc: "r_y = rf_ry fr + c" using x y by (simp_all add: c_def)
  have ratio: "rf_ry fr \<noteq> 0 \<and> r_y \<noteq> 0 \<longrightarrow>
      (r_x / r_y = rf_rx fr / rf_ry fr \<longleftrightarrow> rf_rx fr = rf_ry fr \<or> r_x = rf_rx fr)"
  proof
    assume nz: "rf_ry fr \<noteq> 0 \<and> r_y \<noteq> 0"
    then have "r_x / r_y = rf_rx fr / rf_ry fr \<longleftrightarrow> r_x * rf_ry fr = rf_rx fr * r_y"
      by (simp add: frac_eq_eq)
    also have "\<dots> \<longleftrightarrow> c * (rf_ry fr - rf_rx fr) = 0"
      unfolding xc yc by (auto simp: algebra_simps)
    also have "\<dots> \<longleftrightarrow> rf_rx fr = rf_ry fr \<or> r_x = rf_rx fr"
      unfolding xc by auto
    finally show "r_x / r_y = rf_rx fr / rf_ry fr \<longleftrightarrow> rf_rx fr = rf_ry fr \<or> r_x = rf_rx fr" .
  qed
  have "r_x - r_y = rf_rx fr - rf_ry fr" using x y by simp
  with g x y ratio show ?thesis unfolding rough_term_def by blast
qed

theorem roughness_added_to_both_witness:
  "\<not> isl (sample_radii half_noise grooveless_params (projr (ring_setup grooveless_params 15)) 20) \<and>
   fst (snd (projr (sample_radii half_noise grooveless_params
                      (projr (ring_setup grooveless_params 15)) 20))) = 99/200 + 1/20 \<and>
   snd (snd (projr (sample_radii half_noise grooveless_params
                      (projr (ring_setup grooveless_params 15)) 20))) = 9/22 + 1/20"
proof -
  let ?fr = "projr (ring_setup grooveless_params 15)"
  obtain theta r_x r_y where
    s: "sample_radii half_noise grooveless_params ?fr 20 = Inr (theta, r_x, r_y)"
    using grooveless_sample by blast
  from roughness_added_to_both [OF s] obtain groove where
    g: "groove_term grooveless_params theta = Inr groove"
    and x: "r_x = rf_rx ?fr + half_noise (rf_t ?fr * noise_scale grooveless_params,
              theta * noise_scale grooveless_params, 0)
            * bark_roughness_depth grooveless_params * bark_roughness_level grooveless_params
            + groove"
    and y: "r_y = rf_ry ?fr + half_noise (rf_t ?fr * noise_scale grooveless_params,
              theta * noise_scale grooveless_params, 0)
            * bark_roughness_depth grooveless_params * bark_roughness_level grooveless_params
            + groove"
    by blast
  have "groove_term grooveless_params theta = Inr 0"
    by (rule groove_depth_zero) (simp_all add: grooveless_params_def default_params_def)
  with g have g0: "groove = 0" by simp
  have nz: "\<And>v. half_noise v * bark_roughness_depth grooveless_params
      * bark_roughness_level grooveless_params = 1/20"
    by (simp add: half_noise_def grooveless_params_def default_params_def)
  from x y have "r_x = 99/200 + 1/20" "r_y = 9/22 + 1/20"
    unfolding nz g0 grooveless_mid_ring by simp_all
  then show ?thesis by (simp add: s)
qed

text \<open>
  Claim C10. At the base ring \<open>t = 0\<close> and the centerline point is
  \<open>(0, curve_strength, 0)\<close>, whatever \<open>curve_count\<close> is: the centre of the first ring is
  the eccentric offset displaced by \<open>curve_strength\<close> along Y, not a point of the Z axis.
\<close>

theorem centerline_at_base:
  assumes "ring_setup p 0 = Inr fr"
  shows "rf_t fr = 0 \<and> centerline p (rf_t fr) = (0, curve_strength p, 0) \<and>
         rf_center fr = vadd (0, curve_strength p, 0) (eccentric_offset p)"
proof -
  from assms obtain t radius rr rot where
    t: "py_truediv (real (0::nat)) (real_of_int (rings p)) = Inr t"
    and fr: "fr = \<lparr> rf_t = t, rf_rx = fst (flange_bump p 0 rr), rf_ry = snd (flange_bump p 0 rr),
               rf_center = vadd (centerline p t) (eccentric_offset p), rf_rot = rot \<rparr>"
    unfolding ring_setup_def Let_def bind_err_Inr_iff by blast
  have "t = 0" using t by (simp add: py_truediv_def split: if_splits)
  then show ?thesis by (simp add: fr centerline_def)
qed

theorem centerline_at_base_witness:
  "\<not> isl (ring_setup default_params 0) \<and>
   rf_center (projr (ring_setup default_params 0)) = (1/2, 3/10, 0)"
proof -
  have c: "setup_clean default_params"
    using default_runs_clean by (simp add: runs_clean_def)
  obtain fr where fr: "ring_setup default_params 0 = Inr fr"
    using ring_setup_ok [OF c] by blast
  from centerline_at_base [OF fr]
  have "rf_center fr = vadd (0, curve_strength default_params, 0) (eccentric_offset default_params)"
    by simp
  then have "rf_center fr = (1/2, 3/10, 0)"
    by (simp add: vadd_def eccentric_offset_def radians_def default_params_def)
  then show ?thesis by (simp add: fr)
qed

section \<open>The quadratic taper with equal radii\<close>

subsection \<open>Over the reals\<close>


subsection \<open>Rounding errors\<close>











subsection \<open>Ring 10 of 30\<close>


















end
